theory Spec2Isabelle
  imports Complex_Main
begin

section \<open>Data model (types.ts)\<close>

text \<open>
  The two enums of \<^verbatim>\<open>types.ts\<close> are datatypes and \<^verbatim>\<open>CellState\<close> is a record with
  the fields of the interface, in its order. A JavaScript \<^verbatim>\<open>number\<close> that holds a
  reward, a utility, an action value or a parameter is a \<^typ>\<open>real\<close>: the arithmetic of
  the model is exact, so rounding, NaN and the infinities of IEEE doubles are outside the
  model (the one infinity the code writes, the start value \<^verbatim>\<open>-Infinity\<close> of a running
  maximum, is the value \<open>None\<close> of an option). Row and column numbers are integers.
  \<^verbatim>\<open>qValues\<close> has the type \<^verbatim>\<open>Record<Action, number>\<close>, a value for each of the four
  actions, so it is a total function on \<open>Action\<close>. A \<^verbatim>\<open>Grid\<close> is an array of rows of
  cells; the model is a list of lists and takes the cells of a grid to be separate
  objects, as they are in every grid that \<^verbatim>\<open>createInitialGrid\<close> and
  \<^verbatim>\<open>performValueIterationStep\<close> build.
\<close>

datatype CellType = EMPTY | WALL | TERMINAL | START

datatype Action = UP | DOWN | LEFT | RIGHT

record CellState =
  row :: int
  col :: int
  type :: CellType
  reward :: real
  utility :: real
  qValues :: "Action \<Rightarrow> real"
  policy :: "Action option"
  visitCount :: nat

type_synonym Grid = "CellState list list"

section \<open>Constants and grid construction (constants.ts)\<close>

definition ROWS :: int where
  "ROWS = 3"

definition COLS :: int where
  "COLS = 4"

definition ACTIONS :: "Action list" where
  "ACTIONS = [UP, DOWN, LEFT, RIGHT]"

text \<open>The body of the inner loop of \<^verbatim>\<open>createInitialGrid\<close>: the cell pushed for (r, c).\<close>

definition createCell :: "real \<Rightarrow> int \<Rightarrow> int \<Rightarrow> CellState" where
  "createCell stepReward r c =
     (let (ty, rew) =
            (if r = 1 \<and> c = 1 then (WALL, 0)
             else if r = 0 \<and> c = 3 then (TERMINAL, 1)
             else if r = 1 \<and> c = 3 then (TERMINAL, - 1)
             else if r = 2 \<and> c = 0 then (START, stepReward)
             else (EMPTY, stepReward))
      in \<lparr> row = r, col = c, type = ty, reward = rew, utility = 0,
           qValues = (\<lambda>a. 0), policy = None, visitCount = 0 \<rparr>)"

text \<open>The two counting loops push one row per r in 0..ROWS-1 and one cell per c in 0..COLS-1.\<close>

definition createInitialGrid :: "real \<Rightarrow> Grid" where
  "createInitialGrid stepReward =
     map (\<lambda>r. map (\<lambda>c. createCell stepReward r c) [0..COLS - 1]) [0..ROWS - 1]"

section \<open>Errors and grid access\<close>

text \<open>
  Reading \<^verbatim>\<open>grid[r][c]\<close> where the row or the cell does not exist gives
  \<^verbatim>\<open>undefined\<close>, and the property access that follows throws a TypeError. The
  running maximum of a sweep that never left \<^verbatim>\<open>-Infinity\<close> has no real value.
\<close>

datatype error = TypeError | NotFinite

definition bindE :: "error + 'a \<Rightarrow> ('a \<Rightarrow> error + 'b) \<Rightarrow> error + 'b" where
  "bindE m f = (case m of Inl e \<Rightarrow> Inl e | Inr x \<Rightarrow> f x)"

definition cellAt :: "Grid \<Rightarrow> int \<Rightarrow> int \<Rightarrow> error + CellState" where
  "cellAt grid r c =
     (if 0 \<le> r \<and> r < int (length grid) then
        (if 0 \<le> c \<and> c < int (length (grid ! nat r)) then Inr (grid ! nat r ! nat c)
         else Inl TypeError)
      else Inl TypeError)"

text \<open>An assignment to fields of \<^verbatim>\<open>grid[r][c]\<close>: the cell there is replaced by \<open>f\<close> of it.\<close>

definition modifyCell :: "Grid \<Rightarrow> int \<Rightarrow> int \<Rightarrow> (CellState \<Rightarrow> CellState) \<Rightarrow> error + Grid" where
  "modifyCell grid r c f =
     bindE (cellAt grid r c)
       (\<lambda>cell. Inr (grid[nat r := (grid ! nat r)[nat c := f cell]]))"

section \<open>Transition model (rlService.ts, getNextState)\<close>

definition getOrthogonalActions :: "Action \<Rightarrow> Action \<times> Action" where
  "getOrthogonalActions action =
     (if action = UP \<or> action = DOWN then (LEFT, RIGHT) else (UP, DOWN))"

text \<open>
  The first part of \<^verbatim>\<open>getNextState\<close>: the action that is executed. \<open>rand\<close> is the value
  of the one call of \<^verbatim>\<open>Math.random()\<close>, made only in stochastic mode.
\<close>

definition intendedAction :: "Action \<Rightarrow> bool \<Rightarrow> real \<Rightarrow> Action" where
  "intendedAction action isStochastic rand =
     (if isStochastic then
        (if rand > 0.8 then
           (let orthogonal = getOrthogonalActions action
            in if rand > 0.9 then fst orthogonal else snd orthogonal)
         else action)
      else action)"

definition dRow :: "Action \<Rightarrow> int" where
  "dRow a = (case a of UP \<Rightarrow> - 1 | DOWN \<Rightarrow> 1 | LEFT \<Rightarrow> 0 | RIGHT \<Rightarrow> 0)"

definition dCol :: "Action \<Rightarrow> int" where
  "dCol a = (case a of UP \<Rightarrow> 0 | DOWN \<Rightarrow> 0 | LEFT \<Rightarrow> - 1 | RIGHT \<Rightarrow> 1)"

text \<open>The result \<^verbatim>\<open>{ nextRow, nextCol }\<close> is the pair (nextRow, nextCol).\<close>

definition getNextState ::
  "Grid \<Rightarrow> int \<Rightarrow> int \<Rightarrow> Action \<Rightarrow> bool \<Rightarrow> real \<Rightarrow> error + (int \<times> int)" where
  "getNextState grid r c action isStochastic rand =
     (let act = intendedAction action isStochastic rand;
          newRow = r + dRow act;
          newCol = c + dCol act
      in if newRow < 0 \<or> newRow \<ge> ROWS \<or> newCol < 0 \<or> newCol \<ge> COLS then Inr (r, c)
         else bindE (cellAt grid newRow newCol)
                (\<lambda>cell. if type cell = WALL then Inr (r, c) else Inr (newRow, newCol)))"

section \<open>Value iteration (rlService.ts, performValueIterationStep)\<close>

text \<open>
  A running maximum that starts at \<^verbatim>\<open>-Infinity\<close>: \<open>None\<close> is \<^verbatim>\<open>-Infinity\<close>, which
  every real exceeds.
\<close>

fun exceeds :: "real \<Rightarrow> real option \<Rightarrow> bool" where
  "exceeds x None = True"
| "exceeds x (Some m) = (x > m)"

text \<open>
  The loop over \<^verbatim>\<open>moves\<close>: each move is resolved by \<^verbatim>\<open>getNextState\<close> in
  deterministic mode on the input grid (no random number is drawn there, the last
  argument is not read) and adds \<^verbatim>\<open>prob * destCell.utility\<close>.
\<close>

definition moveStep ::
  "Grid \<Rightarrow> int \<Rightarrow> int \<Rightarrow> Action \<times> real \<Rightarrow> error + real \<Rightarrow> error + real" where
  "moveStep grid r c move acc =
     bindE acc (\<lambda>expectedUtility.
       bindE (getNextState grid r c (fst move) False 0) (\<lambda>outcome.
         bindE (cellAt grid (fst outcome) (snd outcome)) (\<lambda>destCell.
           Inr (expectedUtility + snd move * utility destCell))))"

definition expectedUtility :: "Grid \<Rightarrow> int \<Rightarrow> int \<Rightarrow> Action \<Rightarrow> error + real" where
  "expectedUtility grid r c action =
     fold (moveStep grid r c)
       [(action, 0.8),
        (fst (getOrthogonalActions action), 0.1),
        (snd (getOrthogonalActions action), 0.1)]
       (Inr 0)"

text \<open>The loop over \<^verbatim>\<open>ACTIONS\<close>, on the pair (maxUtility, bestAction).\<close>

definition actionStep ::
  "Grid \<Rightarrow> int \<Rightarrow> int \<Rightarrow> Action \<Rightarrow> error + (real option \<times> Action option)
     \<Rightarrow> error + (real option \<times> Action option)" where
  "actionStep grid r c action acc =
     bindE acc (\<lambda>(maxUtility, bestAction).
       bindE (expectedUtility grid r c action) (\<lambda>eu.
         if exceeds eu maxUtility then Inr (Some eu, Some action)
         else Inr (maxUtility, bestAction)))"

definition bellmanBackup ::
  "Grid \<Rightarrow> int \<Rightarrow> int \<Rightarrow> error + (real option \<times> Action option)" where
  "bellmanBackup grid r c = fold (actionStep grid r c) ACTIONS (Inr (None, None))"

text \<open>
  The body of the two loops over r and c: \<open>cell\<close> is read from the input grid,
  the writes go to \<open>newGrid\<close>.
\<close>

definition sweepCell :: "Grid \<Rightarrow> real \<Rightarrow> int \<times> int \<Rightarrow> error + Grid \<Rightarrow> error + Grid" where
  "sweepCell grid gamma pos acc =
     bindE acc (\<lambda>newGrid.
       bindE (cellAt grid (fst pos) (snd pos)) (\<lambda>cell.
         if type cell = WALL \<or> type cell = TERMINAL then
           (if type cell = TERMINAL then
              modifyCell newGrid (fst pos) (snd pos) (\<lambda>n. n\<lparr>utility := reward cell\<rparr>)
            else Inr newGrid)
         else
           bindE (bellmanBackup grid (fst pos) (snd pos)) (\<lambda>(maxUtility, bestAction).
             case maxUtility of
               None \<Rightarrow> Inl NotFinite
             | Some m \<Rightarrow>
                 modifyCell newGrid (fst pos) (snd pos)
                   (\<lambda>n. n\<lparr>utility := reward cell + gamma * m, policy := bestAction\<rparr>))))"

text \<open>The positions in the order of the loops: r from 0 to ROWS-1, inside c from 0 to COLS-1.\<close>

definition positions :: "(int \<times> int) list" where
  "positions = concat (map (\<lambda>r. map (\<lambda>c. (r, c)) [0..COLS - 1]) [0..ROWS - 1])"

text \<open>
  \<^verbatim>\<open>newGrid\<close> starts as the deep copy of the grid (\<^verbatim>\<open>JSON.parse(JSON.stringify(grid))\<close>),
  which in the model is the grid itself.
\<close>

definition performValueIterationStep :: "Grid \<Rightarrow> real \<Rightarrow> error + Grid" where
  "performValueIterationStep grid gamma = fold (sweepCell grid gamma) positions (Inr grid)"

text \<open>Repeated sweeps, as the driver's \<^verbatim>\<open>stepMDP\<close> makes them.\<close>

fun sweeps :: "nat \<Rightarrow> real \<Rightarrow> Grid \<Rightarrow> error + Grid" where
  "sweeps 0 gamma grid = Inr grid"
| "sweeps (Suc n) gamma grid = bindE (performValueIterationStep grid gamma) (sweeps n gamma)"

section \<open>Policy engine (rlService.ts, getGreedyAction and getEpsilonGreedyAction)\<close>

text \<open>The loop of \<^verbatim>\<open>getGreedyAction\<close>, on the pair (maxQ, bestActions).\<close>

definition greedyStep ::
  "(Action \<Rightarrow> real) \<Rightarrow> Action \<Rightarrow> real option \<times> Action list \<Rightarrow> real option \<times> Action list" where
  "greedyStep q action st =
     (case st of (maxQ, bestActions) \<Rightarrow>
        if exceeds (q action) maxQ then (Some (q action), [action])
        else if maxQ = Some (q action) then (maxQ, bestActions @ [action])
        else (maxQ, bestActions))"

definition bestActions :: "CellState \<Rightarrow> Action list" where
  "bestActions cell = snd (fold (greedyStep (qValues cell)) ACTIONS (None, []))"

text \<open>
  \<^verbatim>\<open>xs[Math.floor(rand * xs.length)]\<close>: an index outside the array reads \<^verbatim>\<open>undefined\<close>,
  the value \<open>None\<close>.
\<close>

definition pick :: "'a list \<Rightarrow> real \<Rightarrow> 'a option" where
  "pick xs rand =
     (let i = \<lfloor>rand * real (length xs)\<rfloor>
      in if 0 \<le> i \<and> i < int (length xs) then Some (xs ! nat i) else None)"

definition getGreedyAction :: "CellState \<Rightarrow> real \<Rightarrow> Action option" where
  "getGreedyAction cell rand = pick (bestActions cell) rand"

text \<open>
  \<open>rand1\<close> is the value of the first call of \<^verbatim>\<open>Math.random()\<close>, \<open>rand2\<close> of the
  second one, which either branch makes.
\<close>

definition getEpsilonGreedyAction :: "CellState \<Rightarrow> real \<Rightarrow> real \<Rightarrow> real \<Rightarrow> Action option" where
  "getEpsilonGreedyAction cell epsilon rand1 rand2 =
     (if rand1 < epsilon then pick ACTIONS rand2 else getGreedyAction cell rand2)"

section \<open>Learning updates (rlService.ts, updateQLearning and updateSARSA; App.tsx, stepRL)\<close>

text \<open>\<^verbatim>\<open>Math.max(...Object.values(q))\<close> for a record with its four values.\<close>

definition maxQValues :: "(Action \<Rightarrow> real) \<Rightarrow> real" where
  "maxQValues q = max (max (max (q UP) (q DOWN)) (q LEFT)) (q RIGHT)"

text \<open>
  The three assignments that end both Q updates: the new \<^verbatim>\<open>qValues\<close> record, then
  \<^verbatim>\<open>utility\<close> and \<^verbatim>\<open>policy\<close> from the cell as it is by then. \<open>rand\<close> is the random
  number of the tie break in \<^verbatim>\<open>getGreedyAction\<close>.
\<close>

definition writeQ :: "Grid \<Rightarrow> int \<times> int \<Rightarrow> Action \<Rightarrow> real \<Rightarrow> real \<Rightarrow> error + Grid" where
  "writeQ newGrid s a newQ rand =
     bindE (modifyCell newGrid (fst s) (snd s) (\<lambda>cl. cl\<lparr>qValues := (qValues cl)(a := newQ)\<rparr>))
       (\<lambda>g1. bindE (modifyCell g1 (fst s) (snd s) (\<lambda>cl. cl\<lparr>utility := maxQValues (qValues cl)\<rparr>))
         (\<lambda>g2. modifyCell g2 (fst s) (snd s) (\<lambda>cl. cl\<lparr>policy := getGreedyAction cl rand\<rparr>)))"

text \<open>A position \<^verbatim>\<open>{r, c}\<close> is the pair (r, c).\<close>

definition updateQLearning ::
  "Grid \<Rightarrow> int \<times> int \<Rightarrow> Action \<Rightarrow> real \<Rightarrow> int \<times> int \<Rightarrow> real \<Rightarrow> real \<Rightarrow> real \<Rightarrow> error + Grid" where
  "updateQLearning grid s a r sPrime alpha gamma rand =
     bindE (cellAt grid (fst s) (snd s)) (\<lambda>cell.
       let oldQ = qValues cell a in
       bindE (cellAt grid (fst sPrime) (snd sPrime)) (\<lambda>nextCell.
         let maxQPrime = (if type nextCell = TERMINAL then 0 else maxQValues (qValues nextCell));
             newQ = oldQ + alpha * (r + (gamma * maxQPrime) - oldQ)
         in writeQ grid s a newQ rand))"

definition updateSARSA ::
  "Grid \<Rightarrow> int \<times> int \<Rightarrow> Action \<Rightarrow> real \<Rightarrow> int \<times> int \<Rightarrow> Action \<Rightarrow> real \<Rightarrow> real \<Rightarrow> real
     \<Rightarrow> error + Grid" where
  "updateSARSA grid s a r sPrime aPrime alpha gamma rand =
     bindE (cellAt grid (fst s) (snd s)) (\<lambda>cell.
       let oldQ = qValues cell a in
       bindE (cellAt grid (fst sPrime) (snd sPrime)) (\<lambda>nextCell.
         let qPrime = (if type nextCell \<noteq> TERMINAL then qValues nextCell aPrime else 0);
             newQ = oldQ + alpha * (r + (gamma * qPrime) - oldQ)
         in writeQ grid s a newQ rand))"

text \<open>
  The TD branch of \<^verbatim>\<open>stepRL\<close>, with what the branch reads from the lines before it:
  \<open>s\<close> is the agent's position, \<open>sPrime\<close> is (nextRow, nextCol), \<^verbatim>\<open>nextCell\<close> is the
  cell there and \<^verbatim>\<open>reward\<close> is its reward.
\<close>

definition stepRL_TD :: "Grid \<Rightarrow> int \<times> int \<Rightarrow> int \<times> int \<Rightarrow> real \<Rightarrow> real \<Rightarrow> error + Grid" where
  "stepRL_TD grid s sPrime alpha gamma =
     bindE (cellAt grid (fst s) (snd s)) (\<lambda>currentCell.
       bindE (cellAt grid (fst sPrime) (snd sPrime)) (\<lambda>nextCell.
         let rew = reward nextCell;
             currentU = utility currentCell;
             nextU = (if type nextCell = TERMINAL then reward nextCell else utility nextCell);
             newU = currentU + alpha * (rew + gamma * nextU - currentU)
         in modifyCell grid (fst s) (snd s) (\<lambda>cl. cl\<lparr>utility := newU\<rparr>)))"

section \<open>Notions of the specification\<close>

text \<open>
  A grid of the program has ROWS rows of COLS cells each; a position is in bounds when
  0 \<le> row < ROWS and 0 \<le> col < COLS.
\<close>

definition gridOk :: "Grid \<Rightarrow> bool" where
  "gridOk grid = (int (length grid) = ROWS \<and> (\<forall>rw \<in> set grid. int (length rw) = COLS))"

definition inBounds :: "int \<times> int \<Rightarrow> bool" where
  "inBounds p = (0 \<le> fst p \<and> fst p < ROWS \<and> 0 \<le> snd p \<and> snd p < COLS)"

text \<open>The cell at an in-bounds position of a grid.\<close>

definition cellOf :: "Grid \<Rightarrow> int \<times> int \<Rightarrow> CellState" where
  "cellOf grid p = grid ! nat (fst p) ! nat (snd p)"

text \<open>
  The cell one step in the direction of an action (row 0 is the top row), and the
  deterministic move: that cell when it is in bounds and not a WALL, the origin otherwise.
\<close>

definition oneStep :: "Action \<Rightarrow> int \<times> int \<Rightarrow> int \<times> int" where
  "oneStep x p =
     (case x of UP \<Rightarrow> (fst p - 1, snd p) | DOWN \<Rightarrow> (fst p + 1, snd p)
      | LEFT \<Rightarrow> (fst p, snd p - 1) | RIGHT \<Rightarrow> (fst p, snd p + 1))"

definition dest :: "Grid \<Rightarrow> int \<times> int \<Rightarrow> Action \<Rightarrow> int \<times> int" where
  "dest grid p x =
     (let q = oneStep x p in if inBounds q \<and> type (cellOf grid q) \<noteq> WALL then q else p)"

text \<open>
  The two actions orthogonal to an action: LEFT and RIGHT for a vertical action, UP and
  DOWN for a horizontal one.
\<close>

definition orthogonalPair :: "Action \<Rightarrow> Action \<times> Action" where
  "orthogonalPair a =
     (case a of UP \<Rightarrow> (LEFT, RIGHT) | DOWN \<Rightarrow> (LEFT, RIGHT)
      | LEFT \<Rightarrow> (UP, DOWN) | RIGHT \<Rightarrow> (UP, DOWN))"

text \<open>
  The expected utility of an action at a position, over the utilities of a grid:
  weight 0.8 on the destination of the action and 0.1 on the destination of each of the
  two orthogonal actions.
\<close>

definition specExpected :: "Grid \<Rightarrow> int \<times> int \<Rightarrow> Action \<Rightarrow> real" where
  "specExpected grid p a =
     0.8 * utility (cellOf grid (dest grid p a))
     + 0.1 * utility (cellOf grid (dest grid p (fst (orthogonalPair a))))
     + 0.1 * utility (cellOf grid (dest grid p (snd (orthogonalPair a))))"

text \<open>What one sweep over the grid makes of the cell \<open>n\<close> at position \<open>p\<close>.\<close>

definition sweptCell :: "Grid \<Rightarrow> real \<Rightarrow> int \<times> int \<Rightarrow> CellState \<Rightarrow> CellState" where
  "sweptCell grid gamma p n =
     (let cell = cellOf grid p in
      if type cell = WALL then n
      else if type cell = TERMINAL then n\<lparr>utility := reward cell\<rparr>
      else n\<lparr>utility := reward cell + gamma * Max (range (specExpected grid p)),
             policy := find (\<lambda>a. specExpected grid p a = Max (range (specExpected grid p))) ACTIONS\<rparr>)"

text \<open>The initial grid with every utility set to the cell's reward, an input for examples.\<close>

definition rewardGrid :: Grid where
  "rewardGrid = map (map (\<lambda>cl. cl\<lparr>utility := reward cl\<rparr>)) (createInitialGrid (- 0.04))"

text \<open>A cell in which UP, DOWN and RIGHT tie for the maximum, an input for examples.\<close>

definition tieCell :: CellState where
  "tieCell = (createCell 0 0 0)\<lparr>qValues := (\<lambda>a. if a = LEFT then 0 else 1)\<rparr>"

text \<open>The cell of the source position after a Q update that stores \<open>newQ\<close> for action \<open>a\<close>.\<close>

definition qUpdated :: "CellState \<Rightarrow> Action \<Rightarrow> real \<Rightarrow> real \<Rightarrow> CellState" where
  "qUpdated cell a newQ rand =
     cell\<lparr>qValues := (qValues cell)(a := newQ),
          utility := maxQValues ((qValues cell)(a := newQ)),
          policy := getGreedyAction (cell\<lparr>qValues := (qValues cell)(a := newQ)\<rparr>) rand\<rparr>"

text \<open>The initial grid with action values 0.5 for UP and 0.2 for the others at (1,0), an input for examples.\<close>

definition qGrid :: Grid where
  "qGrid = (createInitialGrid (- 0.04))
     [1 := (createInitialGrid (- 0.04) ! 1)
        [0 := (createCell (- 0.04) 1 0)\<lparr>qValues := (\<lambda>a. if a = UP then 0.5 else 0.2)\<rparr>]]"

section \<open>Auxiliary facts\<close>

lemma UNIV_Action: "(UNIV :: Action set) = {UP, DOWN, LEFT, RIGHT}"
  by (auto intro: Action.exhaust)

lemma cellAt_gridOk:
  assumes "gridOk grid" "inBounds p"
  shows "cellAt grid (fst p) (snd p) = Inr (cellOf grid p)"
proof -
  from assms have r: "0 \<le> fst p" "fst p < int (length grid)"
    by (auto simp: gridOk_def inBounds_def)
  then have "grid ! nat (fst p) \<in> set grid" by simp
  with assms have "int (length (grid ! nat (fst p))) = COLS"
    by (simp add: gridOk_def)
  with assms r show ?thesis
    by (simp add: cellAt_def cellOf_def inBounds_def)
qed

lemma getNextState_deterministic:
  assumes "gridOk grid"
  shows "getNextState grid r c a False u = Inr (dest grid (r, c) a)"
proof (cases "inBounds (oneStep a (r, c))")
  case True
  have os: "oneStep a (r, c) = (r + dRow a, c + dCol a)"
    by (cases a) (simp_all add: oneStep_def dRow_def dCol_def)
  from cellAt_gridOk [OF assms True] True show ?thesis
    by (simp add: getNextState_def intendedAction_def dest_def os inBounds_def bindE_def Let_def)
next
  case False
  have os: "oneStep a (r, c) = (r + dRow a, c + dCol a)"
    by (cases a) (simp_all add: oneStep_def dRow_def dCol_def)
  from False show ?thesis
    by (auto simp add: getNextState_def intendedAction_def dest_def os inBounds_def bindE_def Let_def)
qed

lemma getNextState_stochastic:
  "getNextState grid r c a True u = getNextState grid r c (intendedAction a True u) False u'"
  by (simp add: getNextState_def intendedAction_def)

lemma inBounds_dest: "inBounds p \<Longrightarrow> inBounds (dest grid p a)"
  by (simp add: dest_def Let_def)

lemma bestActions_filter:
  "bestActions cell = filter (\<lambda>a. qValues cell a = maxQValues (qValues cell)) ACTIONS"
  by (auto simp: bestActions_def ACTIONS_def greedyStep_def maxQValues_def max_def)

lemma maxQValues_Max: "maxQValues q = Max (range q)"
  by (simp add: maxQValues_def UNIV_Action max.commute max.left_commute)

lemma moveStep_ok:
  assumes "gridOk grid" "inBounds (r, c)"
  shows "moveStep grid r c (act, prob) (Inr x) = Inr (x + prob * utility (cellOf grid (dest grid (r, c) act)))"
  using cellAt_gridOk [OF assms(1) inBounds_dest [OF assms(2), of grid act]]
  by (simp add: moveStep_def bindE_def getNextState_deterministic [OF assms(1)])

lemma getOrthogonalActions_pair: "getOrthogonalActions a = orthogonalPair a"
  by (cases a) (simp_all add: getOrthogonalActions_def orthogonalPair_def)

lemma expectedUtility_ok:
  assumes "gridOk grid" "inBounds (r, c)"
  shows "expectedUtility grid r c a = Inr (specExpected grid (r, c) a)"
  by (simp add: expectedUtility_def specExpected_def moveStep_ok [OF assms]
      getOrthogonalActions_pair)

lemma actionStep_ok:
  assumes "gridOk grid" "inBounds (r, c)"
  shows "actionStep grid r c a (Inr (m, b)) =
           Inr (if exceeds (specExpected grid (r, c) a) m
                then (Some (specExpected grid (r, c) a), Some a) else (m, b))"
  by (simp add: actionStep_def bindE_def expectedUtility_ok [OF assms])

lemma bellmanBackup_ok:
  assumes "gridOk grid" "inBounds (r, c)"
  shows "bellmanBackup grid r c =
           Inr (Some (Max (range (specExpected grid (r, c)))),
                find (\<lambda>a. specExpected grid (r, c) a = Max (range (specExpected grid (r, c)))) ACTIONS)"
proof -
  define e where "e = specExpected grid (r, c)"
  have step: "\<And>a m b. actionStep grid r c a (Inr (m, b)) =
           Inr (if exceeds (e a) m then (Some (e a), Some a) else (m, b))"
    unfolding e_def by (rule actionStep_ok [OF assms])
  have "bellmanBackup grid r c =
          Inr (Some (Max (range e)), find (\<lambda>a. e a = Max (range e)) [UP, DOWN, LEFT, RIGHT])"
    by (simp add: bellmanBackup_def ACTIONS_def step UNIV_Action max_def)
  then show ?thesis by (simp add: e_def ACTIONS_def)
qed

lemma modifyCell_cellAt:
  assumes "cellAt grid sr sc = Inr cell"
  shows "\<exists>g'. modifyCell grid sr sc f = Inr g'
           \<and> map length g' = map length grid
           \<and> (\<forall>r c. cellAt g' r c = (if r = sr \<and> c = sc then Inr (f cell) else cellAt grid r c))"
proof -
  let ?i = "nat sr" and ?j = "nat sc"
  let ?g' = "grid[?i := (grid ! ?i)[?j := f cell]]"
  from assms have rng: "0 \<le> sr" "sr < int (length grid)"
      "0 \<le> sc" "sc < int (length (grid ! ?i))" and cell: "cell = grid ! ?i ! ?j"
    by (auto simp: cellAt_def split: if_splits)
  have m: "modifyCell grid sr sc f = Inr ?g'"
    using assms by (simp add: modifyCell_def bindE_def)
  have len: "map length ?g' = map length grid"
    using rng by (simp add: map_update list_update_same_conv)
  have at: "cellAt ?g' r c = (if r = sr \<and> c = sc then Inr (f cell) else cellAt grid r c)" for r c
  proof (cases "0 \<le> r \<and> r < int (length grid)")
    case False
    then show ?thesis using rng by (auto simp: cellAt_def)
  next
    case True
    show ?thesis
    proof (cases "r = sr")
      case False
      with True rng have "nat r \<noteq> ?i" by auto
      with True False show ?thesis by (auto simp: cellAt_def)
    next
      case rs: True
      show ?thesis
      proof (cases "0 \<le> c \<and> c < int (length (grid ! ?i))")
        case False
        then show ?thesis using rng rs by (auto simp: cellAt_def)
      next
        case cin: True
        show ?thesis
        proof (cases "c = sc")
          case True
          with rs rng show ?thesis by (auto simp: cellAt_def)
        next
          case False
          with cin rng have "nat c \<noteq> ?j" by auto
          with rs rng cin False show ?thesis by (auto simp: cellAt_def)
        qed
      qed
    qed
  qed
  from m len at show ?thesis by blast
qed

lemma gridOk_lengths: "gridOk grid = (int (length grid) = ROWS \<and> (\<forall>n \<in> set (map length grid). int n = COLS))"
  by (auto simp: gridOk_def)

lemma gridOk_cong: "map length g' = map length grid \<Longrightarrow> gridOk g' = gridOk grid"
  by (metis gridOk_lengths length_map)

lemma sweepCell_step:
  assumes "gridOk grid" "inBounds p" "gridOk ng"
  shows "\<exists>ng'. sweepCell grid gamma p (Inr ng) = Inr ng'
           \<and> map length ng' = map length ng
           \<and> (\<forall>r c. cellAt ng' r c =
                 (if (r, c) = p then Inr (sweptCell grid gamma p (cellOf ng p)) else cellAt ng r c))"
proof -
  obtain pr pc where p: "p = (pr, pc)" by (cases p)
  have cg: "cellAt grid pr pc = Inr (cellOf grid p)"
    using cellAt_gridOk [OF assms(1,2)] by (simp add: p)
  have cn: "cellAt ng pr pc = Inr (cellOf ng p)"
    using cellAt_gridOk [OF assms(3,2)] by (simp add: p)
  have bb: "bellmanBackup grid pr pc =
           Inr (Some (Max (range (specExpected grid p))),
                find (\<lambda>a. specExpected grid p a = Max (range (specExpected grid p))) ACTIONS)"
    using bellmanBackup_ok [OF assms(1), of pr pc] assms(2) by (simp add: p)
  show ?thesis
  proof (cases "type (cellOf grid p) = WALL")
    case True
    then show ?thesis
      using cn by (auto simp: sweepCell_def bindE_def p cg sweptCell_def)
  next
    case nw: False
    show ?thesis
    proof (cases "type (cellOf grid p) = TERMINAL")
      case True
      from modifyCell_cellAt [OF cn, of "\<lambda>n. n\<lparr>utility := reward (cellOf grid p)\<rparr>"]
      show ?thesis
        using True by (auto simp: sweepCell_def bindE_def p cg sweptCell_def)
    next
      case False
      from modifyCell_cellAt [OF cn, of "\<lambda>n. n\<lparr>utility := reward (cellOf grid p)
             + gamma * Max (range (specExpected grid p)),
             policy := find (\<lambda>a. specExpected grid p a = Max (range (specExpected grid p))) ACTIONS\<rparr>"]
      show ?thesis
        using False nw by (auto simp: sweepCell_def bindE_def p cg bb sweptCell_def)
    qed
  qed
qed

lemma sweepCell_fold:
  assumes "gridOk grid"
  shows "gridOk ng \<Longrightarrow> \<forall>p \<in> set ps. inBounds p \<Longrightarrow> distinct ps \<Longrightarrow>
         \<exists>ng'. fold (sweepCell grid gamma) ps (Inr ng) = Inr ng'
           \<and> map length ng' = map length ng
           \<and> (\<forall>r c. cellAt ng' r c =
                 (if (r, c) \<in> set ps then Inr (sweptCell grid gamma (r, c) (cellOf ng (r, c)))
                  else cellAt ng r c))"
proof (induction ps arbitrary: ng)
  case Nil
  then show ?case by simp
next
  case (Cons p ps)
  from Cons.prems have pin: "inBounds p" and pnot: "p \<notin> set ps" by auto
  from sweepCell_step [OF assms pin Cons.prems(1), of gamma]
  obtain n1 where n1: "sweepCell grid gamma p (Inr ng) = Inr n1"
      "map length n1 = map length ng"
      "\<And>r c. cellAt n1 r c =
          (if (r, c) = p then Inr (sweptCell grid gamma p (cellOf ng p)) else cellAt ng r c)"
    by blast
  have ok1: "gridOk n1" using gridOk_cong [OF n1(2)] Cons.prems(1) by simp
  from Cons.IH [OF ok1] Cons.prems
  obtain n2 where n2: "fold (sweepCell grid gamma) ps (Inr n1) = Inr n2"
      "map length n2 = map length n1"
      "\<And>r c. cellAt n2 r c =
          (if (r, c) \<in> set ps then Inr (sweptCell grid gamma (r, c) (cellOf n1 (r, c)))
           else cellAt n1 r c)"
    by auto
  have same: "cellOf n1 q = cellOf ng q" if "q \<in> set ps" for q
  proof -
    from that Cons.prems have qin: "inBounds q" and qp: "q \<noteq> p" using pnot by auto
    have "cellAt n1 (fst q) (snd q) = cellAt ng (fst q) (snd q)"
      using n1(3) [of "fst q" "snd q"] qp by simp
    then show ?thesis
      using cellAt_gridOk [OF ok1 qin] cellAt_gridOk [OF Cons.prems(1) qin] by simp
  qed
  have "cellAt n2 r c =
          (if (r, c) \<in> set (p # ps) then Inr (sweptCell grid gamma (r, c) (cellOf ng (r, c)))
           else cellAt ng r c)" for r c
    using n2(3) [of r c] n1(3) [of r c] same [of "(r, c)"] pnot by auto
  with n1 n2 show ?case by simp
qed

lemma positions_eq:
  "positions = [(0,0),(0,1),(0,2),(0,3),(1,0),(1,1),(1,2),(1,3),(2,0),(2,1),(2,2),(2,3)]"
  by (simp add: positions_def ROWS_def COLS_def upto.simps)

lemma set_positions: "p \<in> set positions \<longleftrightarrow> inBounds p"
proof
  assume "p \<in> set positions"
  then show "inBounds p" by (auto simp: positions_eq inBounds_def ROWS_def COLS_def)
next
  assume "inBounds p"
  then have "fst p = 0 \<or> fst p = 1 \<or> fst p = 2" "snd p = 0 \<or> snd p = 1 \<or> snd p = 2 \<or> snd p = 3"
    by (auto simp: inBounds_def ROWS_def COLS_def)
  then show "p \<in> set positions"
    by (cases p) (auto simp: positions_eq)
qed

lemma distinct_positions: "distinct positions"
  by (simp add: positions_eq)

lemma performValueIterationStep_cells:
  assumes "gridOk grid"
  shows "\<exists>g'. performValueIterationStep grid gamma = Inr g' \<and> gridOk g'
           \<and> (\<forall>p. inBounds p \<longrightarrow> cellOf g' p = sweptCell grid gamma p (cellOf grid p))"
proof -
  from sweepCell_fold [OF assms assms _ distinct_positions, of gamma]
  obtain g' where g': "fold (sweepCell grid gamma) positions (Inr grid) = Inr g'"
      "map length g' = map length grid"
      "\<And>r c. cellAt g' r c =
          (if (r, c) \<in> set positions then Inr (sweptCell grid gamma (r, c) (cellOf grid (r, c)))
           else cellAt grid r c)"
    by (auto simp: set_positions)
  have ok: "gridOk g'" using gridOk_cong [OF g'(2)] assms by simp
  have "cellOf g' p = sweptCell grid gamma p (cellOf grid p)" if "inBounds p" for p
    using g'(3) [of "fst p" "snd p"] that cellAt_gridOk [OF ok that]
    by (simp add: set_positions)
  with g'(1) ok show ?thesis by (auto simp: performValueIterationStep_def)
qed

section \<open>Properties of the grid construction\<close>

lemma createInitialGrid_rows:
  "createInitialGrid sr =
     [map (\<lambda>c. createCell sr 0 c) [0, 1, 2, 3],
      map (\<lambda>c. createCell sr 1 c) [0, 1, 2, 3],
      map (\<lambda>c. createCell sr 2 c) [0, 1, 2, 3]]"
  by (simp add: createInitialGrid_def ROWS_def COLS_def upto.simps)

lemma gridOk_createInitialGrid: "gridOk (createInitialGrid sr)"
  by (simp add: gridOk_def createInitialGrid_rows ROWS_def COLS_def)

lemma cellOf_createInitialGrid:
  assumes "inBounds p"
  shows "cellOf (createInitialGrid sr) p = createCell sr (fst p) (snd p)"
proof -
  from assms have "fst p = 0 \<or> fst p = 1 \<or> fst p = 2"
      "snd p = 0 \<or> snd p = 1 \<or> snd p = 2 \<or> snd p = 3"
    by (auto simp: inBounds_def ROWS_def COLS_def)
  then show ?thesis
    by (auto simp: cellOf_def createInitialGrid_rows)
qed

text \<open>
  C9: for every step reward, \<^verbatim>\<open>createInitialGrid\<close> returns 3 rows of 4 cells; the cell
  at (1,1) is WALL with reward 0, the cell at (0,3) is TERMINAL with reward 1, the cell
  at (1,3) is TERMINAL with reward -1, the cell at (2,0) is START and every other cell is
  EMPTY; every cell that is neither WALL nor TERMINAL has the step reward; every cell has
  utility 0, the four action values 0, no policy, visit count 0 and its own row and column.
\<close>

theorem createInitialGrid_layout:
  "length (createInitialGrid stepReward) = 3
   \<and> (\<forall>rw \<in> set (createInitialGrid stepReward). length rw = 4)
   \<and> (\<forall>r c. 0 \<le> r \<and> r < 3 \<and> 0 \<le> c \<and> c < 4 \<longrightarrow>
        cellAt (createInitialGrid stepReward) r c =
          Inr \<lparr> row = r, col = c,
                type = (if (r, c) = (1, 1) then WALL
                        else if (r, c) = (0, 3) \<or> (r, c) = (1, 3) then TERMINAL
                        else if (r, c) = (2, 0) then START else EMPTY),
                reward = (if (r, c) = (1, 1) then 0
                          else if (r, c) = (0, 3) then 1
                          else if (r, c) = (1, 3) then - 1 else stepReward),
                utility = 0, qValues = (\<lambda>a. 0), policy = None, visitCount = 0 \<rparr>)"
proof -
  have ok: "gridOk (createInitialGrid stepReward)" by (rule gridOk_createInitialGrid)
  have len: "length (createInitialGrid stepReward) = 3"
    and rows: "\<forall>rw \<in> set (createInitialGrid stepReward). length rw = 4"
    using ok by (auto simp: gridOk_def ROWS_def COLS_def)
  have cells: "cellAt (createInitialGrid stepReward) r c =
          Inr \<lparr> row = r, col = c,
                type = (if (r, c) = (1, 1) then WALL
                        else if (r, c) = (0, 3) \<or> (r, c) = (1, 3) then TERMINAL
                        else if (r, c) = (2, 0) then START else EMPTY),
                reward = (if (r, c) = (1, 1) then 0
                          else if (r, c) = (0, 3) then 1
                          else if (r, c) = (1, 3) then - 1 else stepReward),
                utility = 0, qValues = (\<lambda>a. 0), policy = None, visitCount = 0 \<rparr>"
    if "0 \<le> r \<and> r < 3 \<and> 0 \<le> c \<and> c < 4" for r c
  proof -
    from that have ib: "inBounds (r, c)" by (simp add: inBounds_def ROWS_def COLS_def)
    have "cellAt (createInitialGrid stepReward) r c = Inr (createCell stepReward r c)"
      using cellAt_gridOk [OF ok ib] cellOf_createInitialGrid [OF ib] by simp
    then show ?thesis by (simp add: createCell_def)
  qed
  from len rows cells show ?thesis by blast
qed

theorem createInitialGrid_layout_witness:
  "cellAt (createInitialGrid (- 0.04)) 1 3 =
     Inr \<lparr> row = 1, col = 3, type = TERMINAL, reward = - 1, utility = 0,
           qValues = (\<lambda>a. 0), policy = None, visitCount = 0 \<rparr>
   \<and> cellAt (createInitialGrid (- 0.04)) 2 0 =
     Inr \<lparr> row = 2, col = 0, type = START, reward = - 0.04, utility = 0,
           qValues = (\<lambda>a. 0), policy = None, visitCount = 0 \<rparr>
   \<and> cellAt (createInitialGrid (- 0.04)) 1 1 =
     Inr \<lparr> row = 1, col = 1, type = WALL, reward = 0, utility = 0,
           qValues = (\<lambda>a. 0), policy = None, visitCount = 0 \<rparr>
   \<and> length (createInitialGrid (- 0.04)) = 3"
  using createInitialGrid_layout [of "- 0.04"] by simp

section \<open>Properties of the transition model\<close>

text \<open>
  C5: on a grid of ROWS by COLS cells and from an in-bounds position, \<^verbatim>\<open>getNextState\<close>
  in deterministic mode returns the position one step in the direction of the action when
  that position is in bounds and its cell is not a WALL, and the origin otherwise; in both
  modes, whatever the random number, it returns a position with 0 \<le> nextRow < ROWS and
  0 \<le> nextCol < COLS.
\<close>

theorem getNextState_move_or_bump:
  assumes "gridOk grid" and "0 \<le> r \<and> r < ROWS" and "0 \<le> c \<and> c < COLS"
  shows "getNextState grid r c a False u =
           Inr (if inBounds (oneStep a (r, c)) \<and> type (cellOf grid (oneStep a (r, c))) \<noteq> WALL
                then oneStep a (r, c) else (r, c))
         \<and> (\<forall>isStochastic rand. \<exists>nextRow nextCol.
               getNextState grid r c a isStochastic rand = Inr (nextRow, nextCol)
               \<and> 0 \<le> nextRow \<and> nextRow < ROWS \<and> 0 \<le> nextCol \<and> nextCol < COLS)"
proof -
  from assms have ib: "inBounds (r, c)" by (simp add: inBounds_def)
  have det: "getNextState grid r c b False v = Inr (dest grid (r, c) b)" for b v
    by (rule getNextState_deterministic [OF assms(1)])
  have "\<exists>nextRow nextCol.
               getNextState grid r c a isStochastic rand = Inr (nextRow, nextCol)
               \<and> 0 \<le> nextRow \<and> nextRow < ROWS \<and> 0 \<le> nextCol \<and> nextCol < COLS"
    for isStochastic rand
  proof (cases isStochastic)
    case False
    with inBounds_dest [OF ib, of grid a] show ?thesis
      by (cases "dest grid (r, c) a") (simp add: det inBounds_def)
  next
    case True
    with inBounds_dest [OF ib, of grid "intendedAction a True rand"] show ?thesis
      by (cases "dest grid (r, c) (intendedAction a True rand)")
         (simp add: getNextState_stochastic [of _ _ _ _ _ 0] det inBounds_def)
  qed
  then show ?thesis by (simp add: det dest_def Let_def)
qed

theorem getNextState_move_or_bump_witness:
  "gridOk (createInitialGrid (- 0.04))
   \<and> getNextState (createInitialGrid (- 0.04)) 1 0 RIGHT False 0 = Inr (1, 0)
   \<and> getNextState (createInitialGrid (- 0.04)) 1 0 UP False 0 = Inr (0, 0)
   \<and> getNextState (createInitialGrid (- 0.04)) 1 0 LEFT False 0 = Inr (1, 0)"
proof -
  have ok: "gridOk (createInitialGrid (- 0.04))" by (rule gridOk_createInitialGrid)
  have r: "0 \<le> (1::int) \<and> 1 < ROWS" and c: "0 \<le> (0::int) \<and> 0 < COLS"
    by (simp_all add: ROWS_def COLS_def)
  have w: "type (cellOf (createInitialGrid (- 0.04)) (1, 1)) = WALL"
      and e: "type (cellOf (createInitialGrid (- 0.04)) (0, 0)) \<noteq> WALL"
    by (simp_all add: cellOf_def createInitialGrid_rows createCell_def)
  show ?thesis
    using ok w e getNextState_move_or_bump [OF ok r c, of RIGHT 0]
      getNextState_move_or_bump [OF ok r c, of UP 0]
      getNextState_move_or_bump [OF ok r c, of LEFT 0]
    by (simp add: oneStep_def inBounds_def ROWS_def COLS_def)
qed



section \<open>Properties of value iteration\<close>

text \<open>
  C1: on a grid of ROWS by COLS cells, \<^verbatim>\<open>performValueIterationStep\<close> returns a grid
  in which every cell that is neither WALL nor TERMINAL has utility = its own reward +
  gamma times the maximum over the four actions of the expected utility
  0.8 U(dest a) + 0.1 U(dest o1) + 0.1 U(dest o2), with U the utility field of the input
  grid, o1 and o2 the two actions orthogonal to a and dest the deterministic move or
  bump; its policy is the first action in the order UP, DOWN, LEFT, RIGHT that attains
  this maximum.
\<close>

theorem performValueIterationStep_bellman:
  assumes "gridOk grid"
  shows "\<exists>newGrid. performValueIterationStep grid gamma = Inr newGrid
           \<and> (\<forall>p. inBounds p \<and> type (cellOf grid p) \<noteq> WALL \<and> type (cellOf grid p) \<noteq> TERMINAL \<longrightarrow>
                 utility (cellOf newGrid p) =
                   reward (cellOf grid p) + gamma * Max (range (specExpected grid p))
                 \<and> policy (cellOf newGrid p) =
                   find (\<lambda>a. specExpected grid p a = Max (range (specExpected grid p)))
                     [UP, DOWN, LEFT, RIGHT])"
proof -
  from performValueIterationStep_cells [OF assms, of gamma]
  obtain g' where g': "performValueIterationStep grid gamma = Inr g'"
      "\<And>p. inBounds p \<Longrightarrow> cellOf g' p = sweptCell grid gamma p (cellOf grid p)"
    by blast
  have "utility (cellOf g' p) =
                   reward (cellOf grid p) + gamma * Max (range (specExpected grid p))
                 \<and> policy (cellOf g' p) =
                   find (\<lambda>a. specExpected grid p a = Max (range (specExpected grid p))) ACTIONS"
    if "inBounds p \<and> type (cellOf grid p) \<noteq> WALL \<and> type (cellOf grid p) \<noteq> TERMINAL" for p
    using g'(2) [of p] that by (simp add: sweptCell_def Let_def)
  then have "\<forall>p. inBounds p \<and> type (cellOf grid p) \<noteq> WALL \<and> type (cellOf grid p) \<noteq> TERMINAL \<longrightarrow>
                 utility (cellOf g' p) =
                   reward (cellOf grid p) + gamma * Max (range (specExpected grid p))
                 \<and> policy (cellOf g' p) =
                   find (\<lambda>a. specExpected grid p a = Max (range (specExpected grid p)))
                     [UP, DOWN, LEFT, RIGHT]"
    unfolding ACTIONS_def by blast
  with g'(1) show ?thesis by blast
qed

lemma rewardGrid_ok: "gridOk rewardGrid"
  by (simp add: rewardGrid_def gridOk_def createInitialGrid_rows ROWS_def COLS_def)

lemma rewardGrid_cells:
  "cellOf rewardGrid (0, 1) = (createCell (- 0.04) 0 1)\<lparr>utility := - 0.04\<rparr>"
  "cellOf rewardGrid (0, 2) = (createCell (- 0.04) 0 2)\<lparr>utility := - 0.04\<rparr>"
  "cellOf rewardGrid (0, 3) = (createCell (- 0.04) 0 3)\<lparr>utility := 1\<rparr>"
  "cellOf rewardGrid (1, 2) = (createCell (- 0.04) 1 2)\<lparr>utility := - 0.04\<rparr>"
  by (simp_all add: rewardGrid_def cellOf_def createInitialGrid_rows createCell_def)

lemma rewardGrid_expected:
  "specExpected rewardGrid (0, 2) UP = 0.064"
  "specExpected rewardGrid (0, 2) DOWN = 0.064"
  "specExpected rewardGrid (0, 2) LEFT = - 0.04"
  "specExpected rewardGrid (0, 2) RIGHT = 0.792"
  by (simp_all add: specExpected_def dest_def oneStep_def inBounds_def ROWS_def COLS_def
      orthogonalPair_def rewardGrid_cells createCell_def)

theorem performValueIterationStep_bellman_witness:
  "gridOk rewardGrid \<and> inBounds (0, 2) \<and> type (cellOf rewardGrid (0, 2)) = EMPTY
   \<and> (\<exists>newGrid. performValueIterationStep rewardGrid 0.9 = Inr newGrid
         \<and> utility (cellOf newGrid (0, 2)) = 0.6728
         \<and> policy (cellOf newGrid (0, 2)) = Some RIGHT)"
proof -
  have ib: "inBounds (0, 2)" by (simp add: inBounds_def ROWS_def COLS_def)
  have ty: "type (cellOf rewardGrid (0, 2)) = EMPTY"
    by (simp add: rewardGrid_cells createCell_def)
  have mx: "Max (range (specExpected rewardGrid (0, 2))) = 0.792"
    by (simp add: UNIV_Action rewardGrid_expected)
  from performValueIterationStep_bellman [OF rewardGrid_ok, of "0.9"]
  obtain newGrid where ng: "performValueIterationStep rewardGrid 0.9 = Inr newGrid"
    "utility (cellOf newGrid (0, 2)) =
       reward (cellOf rewardGrid (0, 2)) + 0.9 * Max (range (specExpected rewardGrid (0, 2)))"
    "policy (cellOf newGrid (0, 2)) =
       find (\<lambda>a. specExpected rewardGrid (0, 2) a = Max (range (specExpected rewardGrid (0, 2))))
         [UP, DOWN, LEFT, RIGHT]"
    using ib ty by auto
  have "utility (cellOf newGrid (0, 2)) = 0.6728"
    by (simp add: ng(2) mx rewardGrid_cells createCell_def)
  moreover have "policy (cellOf newGrid (0, 2)) = Some RIGHT"
    by (simp add: ng(3) mx rewardGrid_expected)
  ultimately show ?thesis using rewardGrid_ok ib ty ng(1) by blast
qed

lemma sweptCell_fields:
  "type (sweptCell grid gamma p n) = type n"
  "reward (sweptCell grid gamma p n) = reward n"
  "type (cellOf grid p) = WALL \<Longrightarrow> sweptCell grid gamma p n = n"
  "type (cellOf grid p) = TERMINAL \<Longrightarrow> utility (sweptCell grid gamma p n) = reward (cellOf grid p)"
  by (simp_all add: sweptCell_def Let_def)

lemma sweeps_pinned:
  "gridOk grid \<Longrightarrow>
   \<exists>gn. sweeps n gamma grid = Inr gn \<and> gridOk gn
     \<and> (\<forall>p. inBounds p \<longrightarrow>
           type (cellOf gn p) = type (cellOf grid p)
           \<and> reward (cellOf gn p) = reward (cellOf grid p)
           \<and> (type (cellOf grid p) = WALL \<longrightarrow> cellOf gn p = cellOf grid p)
           \<and> (0 < n \<and> type (cellOf grid p) = TERMINAL \<longrightarrow>
                 utility (cellOf gn p) = reward (cellOf grid p)))"
proof (induction n arbitrary: grid)
  case 0
  then show ?case by simp
next
  case (Suc n)
  from performValueIterationStep_cells [OF Suc.prems, of gamma]
  obtain g1 where g1: "performValueIterationStep grid gamma = Inr g1" "gridOk g1"
      "\<And>p. inBounds p \<Longrightarrow> cellOf g1 p = sweptCell grid gamma p (cellOf grid p)"
    by blast
  from Suc.IH [OF g1(2)]
  obtain gn where gn: "sweeps n gamma g1 = Inr gn" "gridOk gn"
      "\<And>p. inBounds p \<Longrightarrow> type (cellOf gn p) = type (cellOf g1 p)"
      "\<And>p. inBounds p \<Longrightarrow> reward (cellOf gn p) = reward (cellOf g1 p)"
      "\<And>p. inBounds p \<Longrightarrow> type (cellOf g1 p) = WALL \<Longrightarrow> cellOf gn p = cellOf g1 p"
      "\<And>p. inBounds p \<Longrightarrow> 0 < n \<Longrightarrow> type (cellOf g1 p) = TERMINAL \<Longrightarrow>
             utility (cellOf gn p) = reward (cellOf g1 p)"
    by blast
  have run: "sweeps (Suc n) gamma grid = Inr gn"
    by (simp add: g1(1) gn(1) bindE_def)
  have "type (cellOf gn p) = type (cellOf grid p)
           \<and> reward (cellOf gn p) = reward (cellOf grid p)
           \<and> (type (cellOf grid p) = WALL \<longrightarrow> cellOf gn p = cellOf grid p)
           \<and> (0 < Suc n \<and> type (cellOf grid p) = TERMINAL \<longrightarrow>
                 utility (cellOf gn p) = reward (cellOf grid p))" if ib: "inBounds p" for p
  proof -
    have t1: "type (cellOf g1 p) = type (cellOf grid p)"
      and r1: "reward (cellOf g1 p) = reward (cellOf grid p)"
      by (simp_all add: g1(3) [OF ib] sweptCell_fields)
    have w: "cellOf gn p = cellOf grid p" if "type (cellOf grid p) = WALL"
      using gn(5) [OF ib] that t1 by (simp add: g1(3) [OF ib] sweptCell_fields)
    have u: "utility (cellOf gn p) = reward (cellOf grid p)" if tm: "type (cellOf grid p) = TERMINAL"
    proof (cases n)
      case 0
      with gn(1) have "gn = g1" by simp
      then show ?thesis using tm by (simp add: g1(3) [OF ib] sweptCell_fields)
    next
      case (Suc k)
      then show ?thesis using gn(6) [OF ib] tm t1 r1 by simp
    qed
    from t1 r1 w u gn(3) [OF ib] gn(4) [OF ib] show ?thesis by simp
  qed
  with run gn(2) show ?case by blast
qed

text \<open>
  C4: on a grid of ROWS by COLS cells, in the grid \<^verbatim>\<open>performValueIterationStep\<close>
  returns every TERMINAL cell has utility equal to its own reward and every WALL cell is
  the cell of the input grid, all fields alike; a sweep changes no type and no reward,
  so after any number n > 0 of sweeps every TERMINAL cell still has utility equal to its
  reward, the one the input grid gave it, and every WALL cell is still unchanged.
\<close>

theorem performValueIterationStep_terminal_wall:
  assumes "gridOk grid"
  shows "(\<exists>newGrid. performValueIterationStep grid gamma = Inr newGrid
           \<and> (\<forall>p. inBounds p \<and> type (cellOf newGrid p) = TERMINAL \<longrightarrow>
                 utility (cellOf newGrid p) = reward (cellOf newGrid p))
           \<and> (\<forall>p. inBounds p \<and> type (cellOf grid p) = WALL \<longrightarrow>
                 cellOf newGrid p = cellOf grid p)
           \<and> (\<forall>p. inBounds p \<longrightarrow>
                 type (cellOf newGrid p) = type (cellOf grid p)
                 \<and> reward (cellOf newGrid p) = reward (cellOf grid p)))
         \<and> (\<forall>n > 0. \<exists>gn. sweeps n gamma grid = Inr gn
               \<and> (\<forall>p. inBounds p \<and> type (cellOf grid p) = TERMINAL \<longrightarrow>
                     type (cellOf gn p) = TERMINAL
                     \<and> utility (cellOf gn p) = reward (cellOf grid p)
                     \<and> reward (cellOf gn p) = reward (cellOf grid p))
               \<and> (\<forall>p. inBounds p \<and> type (cellOf grid p) = WALL \<longrightarrow>
                     cellOf gn p = cellOf grid p))"
proof -
  from performValueIterationStep_cells [OF assms, of gamma]
  obtain g1 where g1: "performValueIterationStep grid gamma = Inr g1"
      "\<And>p. inBounds p \<Longrightarrow> cellOf g1 p = sweptCell grid gamma p (cellOf grid p)"
    by blast
  have one: "\<exists>newGrid. performValueIterationStep grid gamma = Inr newGrid
           \<and> (\<forall>p. inBounds p \<and> type (cellOf newGrid p) = TERMINAL \<longrightarrow>
                 utility (cellOf newGrid p) = reward (cellOf newGrid p))
           \<and> (\<forall>p. inBounds p \<and> type (cellOf grid p) = WALL \<longrightarrow>
                 cellOf newGrid p = cellOf grid p)
           \<and> (\<forall>p. inBounds p \<longrightarrow>
                 type (cellOf newGrid p) = type (cellOf grid p)
                 \<and> reward (cellOf newGrid p) = reward (cellOf grid p))"
    using g1 by (auto simp: sweptCell_fields)
  have many: "\<exists>gn. sweeps n gamma grid = Inr gn
               \<and> (\<forall>p. inBounds p \<and> type (cellOf grid p) = TERMINAL \<longrightarrow>
                     type (cellOf gn p) = TERMINAL
                     \<and> utility (cellOf gn p) = reward (cellOf grid p)
                     \<and> reward (cellOf gn p) = reward (cellOf grid p))
               \<and> (\<forall>p. inBounds p \<and> type (cellOf grid p) = WALL \<longrightarrow>
                     cellOf gn p = cellOf grid p)" if "0 < n" for n
  proof -
    from sweeps_pinned [OF assms, of n gamma] obtain gn where
      gn: "sweeps n gamma grid = Inr gn"
      "\<And>p. inBounds p \<Longrightarrow> type (cellOf gn p) = type (cellOf grid p)
           \<and> reward (cellOf gn p) = reward (cellOf grid p)
           \<and> (type (cellOf grid p) = WALL \<longrightarrow> cellOf gn p = cellOf grid p)
           \<and> (0 < n \<and> type (cellOf grid p) = TERMINAL \<longrightarrow>
                 utility (cellOf gn p) = reward (cellOf grid p))"
      by blast
    show ?thesis
      using gn(1) gn(2) that by (intro exI [of _ gn]) simp
  qed
  from one many show ?thesis by blast
qed

theorem performValueIterationStep_terminal_wall_witness:
  "gridOk (createInitialGrid (- 0.04))
   \<and> (\<exists>newGrid. performValueIterationStep (createInitialGrid (- 0.04)) 0.9 = Inr newGrid
         \<and> utility (cellOf newGrid (0, 3)) = 1
         \<and> cellOf newGrid (1, 1) = createCell (- 0.04) 1 1)
   \<and> (\<exists>gn. sweeps 100 0.9 (createInitialGrid (- 0.04)) = Inr gn
         \<and> utility (cellOf gn (0, 3)) = 1 \<and> utility (cellOf gn (1, 3)) = - 1
         \<and> cellOf gn (1, 1) = createCell (- 0.04) 1 1)"
proof -
  let ?g = "createInitialGrid (- 0.04)"
  have ok: "gridOk ?g" by (rule gridOk_createInitialGrid)
  have ib: "inBounds (0, 3)" "inBounds (1, 3)" "inBounds (1, 1)"
    by (simp_all add: inBounds_def ROWS_def COLS_def)
  have c: "cellOf ?g (0, 3) = createCell (- 0.04) 0 3" "cellOf ?g (1, 3) = createCell (- 0.04) 1 3"
      "cellOf ?g (1, 1) = createCell (- 0.04) 1 1"
    using ib by (simp_all only: cellOf_createInitialGrid fst_conv snd_conv)
  have t: "type (createCell (- 0.04) 0 3) = TERMINAL" "type (createCell (- 0.04) 1 3) = TERMINAL"
      "type (createCell (- 0.04) 1 1) = WALL" "reward (createCell (- 0.04) 0 3) = 1"
      "reward (createCell (- 0.04) 1 3) = - 1"
    by (simp_all add: createCell_def)
  note th = performValueIterationStep_terminal_wall [OF ok, of "0.9"]
  from th obtain newGrid where ng: "performValueIterationStep ?g 0.9 = Inr newGrid"
      "\<forall>p. inBounds p \<and> type (cellOf newGrid p) = TERMINAL \<longrightarrow>
                 utility (cellOf newGrid p) = reward (cellOf newGrid p)"
      "\<forall>p. inBounds p \<and> type (cellOf ?g p) = WALL \<longrightarrow> cellOf newGrid p = cellOf ?g p"
      "\<forall>p. inBounds p \<longrightarrow> type (cellOf newGrid p) = type (cellOf ?g p)
                 \<and> reward (cellOf newGrid p) = reward (cellOf ?g p)"
    by blast
  have a: "utility (cellOf newGrid (0, 3)) = 1"
    using ng(2) [rule_format, of "(0, 3)"] ng(4) [rule_format, of "(0, 3)"] ib c t by simp
  have b: "cellOf newGrid (1, 1) = createCell (- 0.04) 1 1"
    using ng(3) [rule_format, of "(1, 1)"] ib c t by simp
  have "(0::nat) < 100" by simp
  with th obtain gn where gn: "sweeps 100 0.9 ?g = Inr gn"
      "\<forall>p. inBounds p \<and> type (cellOf ?g p) = TERMINAL \<longrightarrow>
                     type (cellOf gn p) = TERMINAL
                     \<and> utility (cellOf gn p) = reward (cellOf ?g p)
                     \<and> reward (cellOf gn p) = reward (cellOf ?g p)"
      "\<forall>p. inBounds p \<and> type (cellOf ?g p) = WALL \<longrightarrow> cellOf gn p = cellOf ?g p"
    by blast
  have d: "utility (cellOf gn (0, 3)) = 1" "utility (cellOf gn (1, 3)) = - 1"
      "cellOf gn (1, 1) = createCell (- 0.04) 1 1"
    using gn(2) [rule_format, of "(0, 3)"] gn(2) [rule_format, of "(1, 3)"]
      gn(3) [rule_format, of "(1, 1)"] ib c t by simp_all
  from ok ng(1) a b gn(1) d show ?thesis by blast
qed

section \<open>Properties of the policy engine\<close>

lemma floor_slot:
  fixes u :: real and k i :: nat
  assumes "0 < k"
  shows "\<lfloor>u * real k\<rfloor> = int i \<longleftrightarrow> real i / real k \<le> u \<and> u < (real i + 1) / real k"
proof -
  have "\<lfloor>u * real k\<rfloor> = int i \<longleftrightarrow> real i \<le> u * real k \<and> u * real k < real i + 1"
    by (simp add: floor_eq_iff)
  also have "\<dots> \<longleftrightarrow> real i / real k \<le> u \<and> u < (real i + 1) / real k"
    using assms by (simp add: pos_divide_le_eq pos_less_divide_eq)
  finally show ?thesis .
qed

lemma pick_in_range:
  assumes "0 \<le> u" "u < 1" "xs \<noteq> []"
  shows "\<exists>i < length xs. pick xs u = Some (xs ! i) \<and> \<lfloor>u * real (length xs)\<rfloor> = int i"
proof -
  let ?k = "length xs"
  from assms have k: "0 < real ?k" by simp
  have lo: "0 \<le> \<lfloor>u * real ?k\<rfloor>" using assms by simp
  have "u * real ?k < real ?k" using assms k by simp
  then have hi: "\<lfloor>u * real ?k\<rfloor> < int ?k" by (simp add: floor_less_iff)
  from lo hi have "nat \<lfloor>u * real ?k\<rfloor> < ?k" by linarith
  moreover have "pick xs u = Some (xs ! nat \<lfloor>u * real ?k\<rfloor>)"
    using lo hi by (simp add: pick_def Let_def)
  ultimately show ?thesis using lo by (intro exI [of _ "nat \<lfloor>u * real ?k\<rfloor>"]) simp
qed

lemma pick_slot:
  assumes "distinct xs" "i < length xs"
  shows "{u. 0 \<le> u \<and> u < 1 \<and> pick xs u = Some (xs ! i)}
           = {real i / real (length xs) ..< (real i + 1) / real (length xs)}"
proof -
  let ?k = "length xs"
  from assms have k: "0 < ?k" and ne: "xs \<noteq> []" by auto
  have iff: "pick xs u = Some (xs ! i) \<longleftrightarrow> \<lfloor>u * real ?k\<rfloor> = int i" if "0 \<le> u" "u < 1" for u
  proof -
    from pick_in_range [OF that ne] obtain j where
      j: "j < ?k" "pick xs u = Some (xs ! j)" "\<lfloor>u * real ?k\<rfloor> = int j" by blast
    have "xs ! j = xs ! i \<longleftrightarrow> j = i"
      using assms j(1) by (simp add: nth_eq_iff_index_eq)
    with j show ?thesis by auto
  qed
  have rng: "0 \<le> u \<and> u < 1" if "real i / real ?k \<le> u" "u < (real i + 1) / real ?k" for u
  proof
    have "0 \<le> real i / real ?k" by simp
    with that show "0 \<le> u" by linarith
    have "(real i + 1) / real ?k \<le> 1" using assms(2) k by (simp add: pos_divide_le_eq)
    with that show "u < 1" by linarith
  qed
  show ?thesis
    using iff rng floor_slot [OF k, of _ i] by auto
qed

lemma set_ACTIONS: "set ACTIONS = UNIV"
  by (simp add: ACTIONS_def UNIV_Action)

lemma bestActions_props:
  "bestActions cell \<noteq> []"
  "distinct (bestActions cell)"
  "set (bestActions cell) = {a. qValues cell a = Max (range (qValues cell))}"
proof -
  let ?q = "qValues cell"
  have fin: "finite (range ?q)" by (simp add: UNIV_Action)
  from Max_in [OF fin] obtain a where a: "?q a = Max (range ?q)" by auto
  show s: "set (bestActions cell) = {a. ?q a = Max (range ?q)}"
    by (simp add: bestActions_filter maxQValues_Max set_ACTIONS)
  from a s show "bestActions cell \<noteq> []" by auto
  show "distinct (bestActions cell)"
    by (simp add: bestActions_filter ACTIONS_def)
qed

lemma getGreedyAction_max:
  assumes "0 \<le> u" "u < 1"
  shows "\<exists>a. getGreedyAction cell u = Some a \<and> qValues cell a = Max (range (qValues cell))"
proof -
  from pick_in_range [OF assms bestActions_props(1)] obtain i where
    i: "i < length (bestActions cell)" "pick (bestActions cell) u = Some (bestActions cell ! i)"
    by blast
  from i(1) have "bestActions cell ! i \<in> set (bestActions cell)" by simp
  then have "qValues cell (bestActions cell ! i) = Max (range (qValues cell))"
    by (simp add: bestActions_props(3))
  with i(2) show ?thesis by (simp add: getGreedyAction_def)
qed

lemma getGreedyAction_slots:
  assumes "qValues cell a = Max (range (qValues cell))"
  shows "\<exists>i < card {b. qValues cell b = Max (range (qValues cell))}.
           {u. 0 \<le> u \<and> u < 1 \<and> getGreedyAction cell u = Some a}
             = {real i / real (card {b. qValues cell b = Max (range (qValues cell))})
                 ..< (real i + 1) / real (card {b. qValues cell b = Max (range (qValues cell))})}"
proof -
  let ?xs = "bestActions cell"
  have card: "card {b. qValues cell b = Max (range (qValues cell))} = length ?xs"
    using distinct_card [OF bestActions_props(2), of cell] by (simp add: bestActions_props(3))
  from assms have "a \<in> set ?xs" by (simp add: bestActions_props(3))
  then obtain i where i: "i < length ?xs" "?xs ! i = a" by (auto simp: in_set_conv_nth)
  from pick_slot [OF bestActions_props(2) i(1)] i(2)
  have "{u. 0 \<le> u \<and> u < 1 \<and> getGreedyAction cell u = Some a}
          = {real i / real (length ?xs) ..< (real i + 1) / real (length ?xs)}"
    by (simp add: getGreedyAction_def)
  with i(1) show ?thesis unfolding card by blast
qed

lemma pick_ACTIONS_slot:
  assumes "i < 4"
  shows "{u. 0 \<le> u \<and> u < 1 \<and> pick [UP, DOWN, LEFT, RIGHT] u = Some ([UP, DOWN, LEFT, RIGHT] ! i)}
           = {real i / 4 ..< (real i + 1) / 4}"
  using pick_slot [of "[UP, DOWN, LEFT, RIGHT]" i] assms by simp

text \<open>
  C7: with the random numbers inputs and epsilon in [0, 1]: for every draw in [0, 1),
  \<^verbatim>\<open>getGreedyAction\<close> returns an action whose value is the maximum of the four
  values of the cell; when k actions tie for the maximum, the draws that return one of
  them are exactly an interval [i/k, (i+1)/k) with i < k, of length 1/k.
  \<^verbatim>\<open>getEpsilonGreedyAction\<close> explores exactly for the first draws in [0, epsilon), an
  interval of length epsilon, and then returns the action at index i of the four for the
  second draws in [i/4, (i+1)/4); otherwise it returns the greedy selection.
\<close>

theorem policy_engine_distribution:
  assumes "0 \<le> epsilon \<and> epsilon \<le> 1"
  shows "(\<forall>u. 0 \<le> u \<and> u < 1 \<longrightarrow>
            (\<exists>a. getGreedyAction cell u = Some a \<and> qValues cell a = Max (range (qValues cell))))
         \<and> (\<forall>a. qValues cell a = Max (range (qValues cell)) \<longrightarrow>
              (\<exists>i < card {b. qValues cell b = Max (range (qValues cell))}.
                 {u. 0 \<le> u \<and> u < 1 \<and> getGreedyAction cell u = Some a}
                   = {real i / real (card {b. qValues cell b = Max (range (qValues cell))})
                       ..< (real i + 1) / real (card {b. qValues cell b = Max (range (qValues cell))})}))
         \<and> {u1. 0 \<le> u1 \<and> u1 < 1 \<and> u1 < epsilon} = {0..<epsilon}
         \<and> (\<forall>u1 u2. u1 < epsilon \<longrightarrow>
               getEpsilonGreedyAction cell epsilon u1 u2 = pick [UP, DOWN, LEFT, RIGHT] u2)
         \<and> (\<forall>i < 4. {u2. 0 \<le> u2 \<and> u2 < 1
                 \<and> pick [UP, DOWN, LEFT, RIGHT] u2 = Some ([UP, DOWN, LEFT, RIGHT] ! i)}
               = {real i / 4 ..< (real i + 1) / 4})
         \<and> (\<forall>u1 u2. \<not> u1 < epsilon \<longrightarrow>
               getEpsilonGreedyAction cell epsilon u1 u2 = getGreedyAction cell u2)"
proof -
  have g1: "\<forall>u. 0 \<le> u \<and> u < 1 \<longrightarrow>
            (\<exists>a. getGreedyAction cell u = Some a \<and> qValues cell a = Max (range (qValues cell)))"
    using getGreedyAction_max by blast
  have g2: "\<forall>a. qValues cell a = Max (range (qValues cell)) \<longrightarrow>
              (\<exists>i < card {b. qValues cell b = Max (range (qValues cell))}.
                 {u. 0 \<le> u \<and> u < 1 \<and> getGreedyAction cell u = Some a}
                   = {real i / real (card {b. qValues cell b = Max (range (qValues cell))})
                       ..< (real i + 1) / real (card {b. qValues cell b = Max (range (qValues cell))})})"
    using getGreedyAction_slots by blast
  have e1: "{u1. 0 \<le> u1 \<and> u1 < 1 \<and> u1 < epsilon} = {0..<epsilon}"
    using assms by auto
  have e2: "\<forall>u1 u2. u1 < epsilon \<longrightarrow>
               getEpsilonGreedyAction cell epsilon u1 u2 = pick [UP, DOWN, LEFT, RIGHT] u2"
    by (simp add: getEpsilonGreedyAction_def ACTIONS_def)
  have e3: "\<forall>i < 4. {u2. 0 \<le> u2 \<and> u2 < 1
                 \<and> pick [UP, DOWN, LEFT, RIGHT] u2 = Some ([UP, DOWN, LEFT, RIGHT] ! i)}
               = {real i / 4 ..< (real i + 1) / 4}"
    using pick_ACTIONS_slot by blast
  have e4: "\<forall>u1 u2. \<not> u1 < epsilon \<longrightarrow>
               getEpsilonGreedyAction cell epsilon u1 u2 = getGreedyAction cell u2"
    by (simp add: getEpsilonGreedyAction_def)
  from g1 g2 e1 e2 e3 e4 show ?thesis by (intro conjI)
qed

lemma tieCell_Max: "Max (range (qValues tieCell)) = 1"
  by (simp add: tieCell_def UNIV_Action)

theorem policy_engine_distribution_witness:
  "(0::real) \<le> 0.2 \<and> (0.2::real) \<le> 1
   \<and> getEpsilonGreedyAction tieCell 0.2 0.1 0.6 = Some LEFT
   \<and> getEpsilonGreedyAction tieCell 0.2 0.5 0.6 = getGreedyAction tieCell 0.6
   \<and> (\<exists>a. getGreedyAction tieCell 0.6 = Some a \<and> qValues tieCell a = 1)"
proof -
  have eps: "(0::real) \<le> 0.2 \<and> (0.2::real) \<le> 1" by simp
  note pe = policy_engine_distribution [OF eps, of tieCell]
  have "getEpsilonGreedyAction tieCell 0.2 0.1 0.6 = pick [UP, DOWN, LEFT, RIGHT] 0.6"
    using pe by simp
  moreover have "(0.6::real) \<in> {real 2 / 4 ..< (real 2 + 1) / 4}" by simp
  then have "(0.6::real) \<in> {u2. 0 \<le> u2 \<and> u2 < 1
                 \<and> pick [UP, DOWN, LEFT, RIGHT] u2 = Some ([UP, DOWN, LEFT, RIGHT] ! 2)}"
    using pe [THEN conjunct2, THEN conjunct2, THEN conjunct2, THEN conjunct2, THEN conjunct1,
        rule_format, of 2] by simp
  then have "pick [UP, DOWN, LEFT, RIGHT] 0.6 = Some LEFT" by simp
  ultimately have a: "getEpsilonGreedyAction tieCell 0.2 0.1 0.6 = Some LEFT" by simp
  have b: "getEpsilonGreedyAction tieCell 0.2 0.5 0.6 = getGreedyAction tieCell 0.6"
    using pe by simp
  have c: "\<exists>a. getGreedyAction tieCell 0.6 = Some a \<and> qValues tieCell a = 1"
    using pe [THEN conjunct1, rule_format, of "0.6"] by (simp add: tieCell_Max)
  from eps a b c show ?thesis by blast
qed

text \<open>
  C10: \<^verbatim>\<open>getGreedyAction\<close> is total on every cell, whatever its type: for every draw
  in [0, 1) it returns one of the four actions, whose value is the maximum of the four
  values of the cell. On a cell with all four values 0, as \<^verbatim>\<open>createInitialGrid\<close>
  builds the WALL and the TERMINAL cells, it returns the action at index i of the four
  exactly for the draws in [i/4, (i+1)/4).
\<close>

theorem getGreedyAction_total:
  "(\<forall>u. 0 \<le> u \<and> u < 1 \<longrightarrow>
      (\<exists>a. getGreedyAction cell u = Some a \<and> a \<in> {UP, DOWN, LEFT, RIGHT}
            \<and> qValues cell a = Max (range (qValues cell))))
   \<and> ((\<forall>a. qValues cell a = 0) \<longrightarrow>
        (\<forall>i < 4. {u. 0 \<le> u \<and> u < 1
                    \<and> getGreedyAction cell u = Some ([UP, DOWN, LEFT, RIGHT] ! i)}
                  = {real i / 4 ..< (real i + 1) / 4}))"
proof -
  have tot: "\<exists>a. getGreedyAction cell u = Some a \<and> a \<in> {UP, DOWN, LEFT, RIGHT}
            \<and> qValues cell a = Max (range (qValues cell))" if "0 \<le> u \<and> u < 1" for u
  proof -
    from getGreedyAction_max [of u cell] that obtain a where
      "getGreedyAction cell u = Some a" "qValues cell a = Max (range (qValues cell))" by blast
    moreover have "a \<in> {UP, DOWN, LEFT, RIGHT}" using UNIV_Action by blast
    ultimately show ?thesis by blast
  qed
  have uni: "{u. 0 \<le> u \<and> u < 1 \<and> getGreedyAction cell u = Some ([UP, DOWN, LEFT, RIGHT] ! i)}
                  = {real i / 4 ..< (real i + 1) / 4}"
    if z: "\<forall>a. qValues cell a = 0" and i: "i < 4" for i
  proof -
    have "bestActions cell = [UP, DOWN, LEFT, RIGHT]"
      using z by (simp add: bestActions_filter maxQValues_def ACTIONS_def)
    then show ?thesis using pick_ACTIONS_slot [OF i] by (simp add: getGreedyAction_def)
  qed
  from tot uni show ?thesis by blast
qed

theorem getGreedyAction_total_witness:
  "type (createCell (- 0.04) 1 1) = WALL \<and> type (createCell (- 0.04) 0 3) = TERMINAL
   \<and> getGreedyAction (createCell (- 0.04) 1 1) 0.6 = Some LEFT
   \<and> getGreedyAction (createCell (- 0.04) 0 3) 0.9 = Some RIGHT
   \<and> (\<exists>a. getGreedyAction tieCell 0.9 = Some a \<and> qValues tieCell a = 1)"
proof -
  have z: "qValues (createCell sr r c) a = 0" for sr r c a
    by (simp add: createCell_def)
  have t: "type (createCell (- 0.04) 1 1) = WALL" "type (createCell (- 0.04) 0 3) = TERMINAL"
    by (simp_all add: createCell_def)
  have "(0.6::real) \<in> {real 2 / 4 ..< (real 2 + 1) / 4}" by simp
  then have "(0.6::real) \<in> {u. 0 \<le> u \<and> u < 1
      \<and> getGreedyAction (createCell (- 0.04) 1 1) u = Some ([UP, DOWN, LEFT, RIGHT] ! 2)}"
    using getGreedyAction_total [of "createCell (- 0.04) 1 1", THEN conjunct2, rule_format, OF z, of 2]
    by simp
  then have a: "getGreedyAction (createCell (- 0.04) 1 1) 0.6 = Some LEFT" by simp
  have "(0.9::real) \<in> {real 3 / 4 ..< (real 3 + 1) / 4}" by simp
  then have "(0.9::real) \<in> {u. 0 \<le> u \<and> u < 1
      \<and> getGreedyAction (createCell (- 0.04) 0 3) u = Some ([UP, DOWN, LEFT, RIGHT] ! 3)}"
    using getGreedyAction_total [of "createCell (- 0.04) 0 3", THEN conjunct2, rule_format, OF z, of 3]
    by simp
  then have b: "getGreedyAction (createCell (- 0.04) 0 3) 0.9 = Some RIGHT" by simp
  have c: "\<exists>a. getGreedyAction tieCell 0.9 = Some a \<and> qValues tieCell a = 1"
    using getGreedyAction_total [of tieCell, THEN conjunct1, rule_format, of "0.9"]
    by (auto simp: tieCell_Max)
  from t a b c show ?thesis by blast
qed

section \<open>Properties of the learning updates\<close>

lemma getGreedyAction_qValues:
  "qValues c1 = qValues c2 \<Longrightarrow> getGreedyAction c1 rand = getGreedyAction c2 rand"
  by (simp add: getGreedyAction_def bestActions_def)

lemma writeQ_cellAt:
  assumes "cellAt grid (fst s) (snd s) = Inr cell"
  shows "\<exists>g'. writeQ grid s a newQ rand = Inr g'
           \<and> map length g' = map length grid
           \<and> (\<forall>r c. cellAt g' r c =
                 (if r = fst s \<and> c = snd s then Inr (qUpdated cell a newQ rand)
                  else cellAt grid r c))"
proof -
  let ?f1 = "\<lambda>cl. cl\<lparr>qValues := (qValues cl)(a := newQ)\<rparr>"
  let ?f2 = "\<lambda>cl. cl\<lparr>utility := maxQValues (qValues cl)\<rparr>"
  let ?f3 = "\<lambda>cl. cl\<lparr>policy := getGreedyAction cl rand\<rparr>"
  from modifyCell_cellAt [OF assms, of ?f1]
  obtain g1 where g1: "modifyCell grid (fst s) (snd s) ?f1 = Inr g1"
      "map length g1 = map length grid"
      "\<And>r c. cellAt g1 r c = (if r = fst s \<and> c = snd s then Inr (?f1 cell) else cellAt grid r c)"
    by blast
  have c1: "cellAt g1 (fst s) (snd s) = Inr (?f1 cell)" by (simp add: g1(3))
  from modifyCell_cellAt [OF c1, of ?f2]
  obtain g2 where g2: "modifyCell g1 (fst s) (snd s) ?f2 = Inr g2"
      "map length g2 = map length g1"
      "\<And>r c. cellAt g2 r c = (if r = fst s \<and> c = snd s then Inr (?f2 (?f1 cell)) else cellAt g1 r c)"
    by blast
  have c2: "cellAt g2 (fst s) (snd s) = Inr (?f2 (?f1 cell))" by (simp add: g2(3))
  from modifyCell_cellAt [OF c2, of ?f3]
  obtain g3 where g3: "modifyCell g2 (fst s) (snd s) ?f3 = Inr g3"
      "map length g3 = map length g2"
      "\<And>r c. cellAt g3 r c = (if r = fst s \<and> c = snd s then Inr (?f3 (?f2 (?f1 cell))) else cellAt g2 r c)"
    by blast
  have w: "writeQ grid s a newQ rand = Inr g3"
    by (simp add: writeQ_def bindE_def g1(1) g2(1) g3(1))
  have gq: "getGreedyAction (?f2 (?f1 cell)) rand = getGreedyAction (?f1 cell) rand"
    by (rule getGreedyAction_qValues) simp
  have fin: "?f3 (?f2 (?f1 cell)) = qUpdated cell a newQ rand"
    unfolding qUpdated_def gq [symmetric] by simp
  have "cellAt g3 r c =
          (if r = fst s \<and> c = snd s then Inr (qUpdated cell a newQ rand) else cellAt grid r c)" for r c
    using g3(3) [of r c] g2(3) [of r c] g1(3) [of r c] fin by simp
  with w g1(2) g2(2) g3(2) show ?thesis by simp
qed

lemma updateQLearning_result:
  assumes "cellAt grid (fst s) (snd s) = Inr cell"
    and "cellAt grid (fst sPrime) (snd sPrime) = Inr nextCell"
  shows "\<exists>g'. updateQLearning grid s a r sPrime alpha gamma rand = Inr g'
           \<and> map length g' = map length grid
           \<and> (\<forall>r' c'. cellAt g' r' c' =
                 (if r' = fst s \<and> c' = snd s
                  then Inr (qUpdated cell a
                         (qValues cell a + alpha * (r + gamma *
                            (if type nextCell = TERMINAL then 0 else Max (range (qValues nextCell)))
                          - qValues cell a)) rand)
                  else cellAt grid r' c'))"
proof -
  have "updateQLearning grid s a r sPrime alpha gamma rand =
          writeQ grid s a (qValues cell a + alpha * (r + gamma *
                            (if type nextCell = TERMINAL then 0 else Max (range (qValues nextCell)))
                          - qValues cell a)) rand"
    by (simp add: updateQLearning_def bindE_def assms Let_def maxQValues_Max)
  then show ?thesis
    by (simp only: writeQ_cellAt [OF assms(1)])
qed

lemma updateSARSA_result:
  assumes "cellAt grid (fst s) (snd s) = Inr cell"
    and "cellAt grid (fst sPrime) (snd sPrime) = Inr nextCell"
  shows "\<exists>g'. updateSARSA grid s a r sPrime aPrime alpha gamma rand = Inr g'
           \<and> map length g' = map length grid
           \<and> (\<forall>r' c'. cellAt g' r' c' =
                 (if r' = fst s \<and> c' = snd s
                  then Inr (qUpdated cell a
                         (qValues cell a + alpha * (r + gamma *
                            (if type nextCell = TERMINAL then 0 else qValues nextCell aPrime)
                          - qValues cell a)) rand)
                  else cellAt grid r' c'))"
proof -
  have "updateSARSA grid s a r sPrime aPrime alpha gamma rand =
          writeQ grid s a (qValues cell a + alpha * (r + gamma *
                            (if type nextCell = TERMINAL then 0 else qValues nextCell aPrime)
                          - qValues cell a)) rand"
    by (simp add: updateSARSA_def bindE_def assms Let_def)
  then show ?thesis
    by (simp only: writeQ_cellAt [OF assms(1)])
qed

lemma stepRL_TD_result:
  assumes "cellAt grid (fst s) (snd s) = Inr cell"
    and "cellAt grid (fst sPrime) (snd sPrime) = Inr nextCell"
  shows "\<exists>g'. stepRL_TD grid s sPrime alpha gamma = Inr g'
           \<and> map length g' = map length grid
           \<and> (\<forall>r' c'. cellAt g' r' c' =
                 (if r' = fst s \<and> c' = snd s
                  then Inr (cell\<lparr>utility := utility cell + alpha * (reward nextCell + gamma *
                            (if type nextCell = TERMINAL then reward nextCell else utility nextCell)
                          - utility cell)\<rparr>)
                  else cellAt grid r' c'))"
proof -
  have "stepRL_TD grid s sPrime alpha gamma =
          modifyCell grid (fst s) (snd s)
            (\<lambda>cl. cl\<lparr>utility := utility cell + alpha * (reward nextCell + gamma *
                            (if type nextCell = TERMINAL then reward nextCell else utility nextCell)
                          - utility cell)\<rparr>)"
    by (simp add: stepRL_TD_def bindE_def assms Let_def)
  then show ?thesis
    by (simp only: modifyCell_cellAt [OF assms(1)])
qed

lemma qUpdated_fields:
  "qValues (qUpdated cell a newQ rand) = (qValues cell)(a := newQ)"
  "utility (qUpdated cell a newQ rand) = Max (range (qValues (qUpdated cell a newQ rand)))"
  "row (qUpdated cell a newQ rand) = row cell"
  "col (qUpdated cell a newQ rand) = col cell"
  "type (qUpdated cell a newQ rand) = type cell"
  "reward (qUpdated cell a newQ rand) = reward cell"
  "visitCount (qUpdated cell a newQ rand) = visitCount cell"
  by (simp_all add: qUpdated_def maxQValues_Max)

lemma qUpdated_policy:
  assumes "0 \<le> rand" "rand < 1"
  shows "\<exists>b. policy (qUpdated cell a newQ rand) = Some b
           \<and> qValues (qUpdated cell a newQ rand) b = Max (range (qValues (qUpdated cell a newQ rand)))"
  using getGreedyAction_max [OF assms, of "cell\<lparr>qValues := (qValues cell)(a := newQ)\<rparr>"]
  by (simp add: qUpdated_def)

lemma qGrid_cells:
  "cellAt qGrid 2 0 = Inr (createCell (- 0.04) 2 0)"
  "cellAt qGrid 1 0 = Inr ((createCell (- 0.04) 1 0)\<lparr>qValues := (\<lambda>a. if a = UP then 0.5 else 0.2)\<rparr>)"
  "cellAt qGrid 0 3 = Inr (createCell (- 0.04) 0 3)"
  "cellAt qGrid 1 1 = Inr (createCell (- 0.04) 1 1)"
  by (simp_all add: qGrid_def cellAt_def createInitialGrid_rows)

text \<open>
  C2: when the source position s and the successor position s' are positions of the grid,
  \<^verbatim>\<open>updateQLearning\<close> returns a grid whose cell at s has
  Q(s,a) = oldQ + alpha (r + gamma M - oldQ), with oldQ the input Q(s,a) and M the maximum
  of the four input values Q(s',.) when the cell at s' is not TERMINAL and 0 when it is;
  the other three values of s are kept; the utility of s is the maximum of its four
  updated values and, for a tie-break draw in [0, 1), its policy is an action that attains
  this maximum. The function takes no action of s', and the updated values are the same
  for every tie-break draw.
\<close>

theorem updateQLearning_rule:
  assumes "cellAt grid (fst s) (snd s) = Inr cell"
    and "cellAt grid (fst sPrime) (snd sPrime) = Inr nextCell"
  shows "\<exists>newGrid cell'. updateQLearning grid s a r sPrime alpha gamma rand = Inr newGrid
           \<and> cellAt newGrid (fst s) (snd s) = Inr cell'
           \<and> qValues cell' a =
                qValues cell a + alpha * (r + gamma *
                  (if type nextCell = TERMINAL then 0 else Max (range (qValues nextCell)))
                  - qValues cell a)
           \<and> (\<forall>b. b \<noteq> a \<longrightarrow> qValues cell' b = qValues cell b)
           \<and> utility cell' = Max (range (qValues cell'))
           \<and> (0 \<le> rand \<and> rand < 1 \<longrightarrow>
                (\<exists>b. policy cell' = Some b \<and> qValues cell' b = Max (range (qValues cell'))))
           \<and> (\<forall>rand2. \<exists>g2 c2. updateQLearning grid s a r sPrime alpha gamma rand2 = Inr g2
                  \<and> cellAt g2 (fst s) (snd s) = Inr c2 \<and> qValues c2 = qValues cell')"
proof -
  let ?newQ = "qValues cell a + alpha * (r + gamma *
                  (if type nextCell = TERMINAL then 0 else Max (range (qValues nextCell)))
                  - qValues cell a)"
  have res: "\<exists>g'. updateQLearning grid s a r sPrime alpha gamma u = Inr g'
           \<and> cellAt g' (fst s) (snd s) = Inr (qUpdated cell a ?newQ u)" for u
    using updateQLearning_result [OF assms, of a r alpha gamma u] by auto
  from res [of rand] obtain g' where g': "updateQLearning grid s a r sPrime alpha gamma rand = Inr g'"
      "cellAt g' (fst s) (snd s) = Inr (qUpdated cell a ?newQ rand)" by blast
  let ?c = "qUpdated cell a ?newQ rand"
  have q: "qValues ?c a = ?newQ" "\<forall>b. b \<noteq> a \<longrightarrow> qValues ?c b = qValues cell b"
    by (simp_all add: qUpdated_fields)
  have u: "utility ?c = Max (range (qValues ?c))" by (rule qUpdated_fields)
  have p: "0 \<le> rand \<and> rand < 1 \<longrightarrow>
                (\<exists>b. policy ?c = Some b \<and> qValues ?c b = Max (range (qValues ?c)))"
    using qUpdated_policy by blast
  have ind: "\<forall>rand2. \<exists>g2 c2. updateQLearning grid s a r sPrime alpha gamma rand2 = Inr g2
                  \<and> cellAt g2 (fst s) (snd s) = Inr c2 \<and> qValues c2 = qValues ?c"
  proof
    fix rand2
    from res [of rand2] obtain g2 where
      "updateQLearning grid s a r sPrime alpha gamma rand2 = Inr g2"
      "cellAt g2 (fst s) (snd s) = Inr (qUpdated cell a ?newQ rand2)" by blast
    moreover have "qValues (qUpdated cell a ?newQ rand2) = qValues ?c"
      by (simp add: qUpdated_fields)
    ultimately show "\<exists>g2 c2. updateQLearning grid s a r sPrime alpha gamma rand2 = Inr g2
                  \<and> cellAt g2 (fst s) (snd s) = Inr c2 \<and> qValues c2 = qValues ?c" by blast
  qed
  from g' q u p ind show ?thesis by blast
qed

theorem updateQLearning_rule_witness:
  "\<exists>newGrid cell'. updateQLearning qGrid (2, 0) UP (- 0.04) (1, 0) 0.1 0.9 0.3 = Inr newGrid
     \<and> cellAt newGrid 2 0 = Inr cell'
     \<and> qValues cell' UP = 0.041 \<and> utility cell' = 0.041 \<and> policy cell' = Some UP"
proof -
  let ?nc = "(createCell (- 0.04) 1 0)\<lparr>qValues := (\<lambda>a. if a = UP then 0.5 else 0.2)\<rparr>"
  have s: "cellAt qGrid (fst (2, 0)) (snd (2, 0)) = Inr (createCell (- 0.04) 2 0)"
    and sp: "cellAt qGrid (fst (1, 0)) (snd (1, 0)) = Inr ?nc"
    by (simp_all add: qGrid_cells)
  have rnd: "(0::real) \<le> 0.3 \<and> (0.3::real) < 1" by simp
  from updateQLearning_rule [OF s sp, of UP "- 0.04" "0.1" "0.9" "0.3"]
  obtain newGrid cell' where
    g: "updateQLearning qGrid (2, 0) UP (- 0.04) (1, 0) 0.1 0.9 0.3 = Inr newGrid"
    and c: "cellAt newGrid 2 0 = Inr cell'"
    and q: "qValues cell' UP = qValues (createCell (- 0.04) 2 0) UP + 0.1 * (- 0.04 + 0.9 *
                  (if type ?nc = TERMINAL then 0 else Max (range (qValues ?nc)))
                  - qValues (createCell (- 0.04) 2 0) UP)"
    and o: "\<forall>b. b \<noteq> UP \<longrightarrow> qValues cell' b = qValues (createCell (- 0.04) 2 0) b"
    and u: "utility cell' = Max (range (qValues cell'))"
    and p: "0 \<le> (0.3::real) \<and> (0.3::real) < 1 \<longrightarrow>
              (\<exists>b. policy cell' = Some b \<and> qValues cell' b = Max (range (qValues cell')))"
    by auto
  have qu: "qValues cell' UP = 0.041"
    unfolding q by (simp add: createCell_def UNIV_Action)
  have qo: "qValues cell' DOWN = 0" "qValues cell' LEFT = 0" "qValues cell' RIGHT = 0"
    using o by (simp_all add: createCell_def)
  have mx: "Max (range (qValues cell')) = 0.041"
    by (simp add: UNIV_Action qu qo)
  from p rnd obtain b where b: "policy cell' = Some b" "qValues cell' b = Max (range (qValues cell'))"
    by blast
  have "b = UP" using b(2) qo unfolding mx by (cases b) simp_all
  with g c qu u mx b(1) show ?thesis by auto
qed

text \<open>
  C3: when s and s' are positions of the grid, \<^verbatim>\<open>updateSARSA\<close> returns a grid whose
  cell at s has Q(s,a) = oldQ + alpha (r + gamma T - oldQ), with T the input value
  Q(s',a') of the supplied action a' when the cell at s' is not TERMINAL and 0 when it
  is; the other three values of s are kept, the utility of s is the maximum of its four
  updated values and, for a tie-break draw in [0, 1), its policy attains this maximum.
  The bootstrap depends on a' itself: with all else fixed and s' not TERMINAL, the
  updated Q(s,a) for a' exceeds the one for another action a'' by alpha gamma
  (Q(s',a') - Q(s',a'')), so for alpha gamma > 0 an action with a lower value at s'
  gives a lower updated Q(s,a).
\<close>

theorem updateSARSA_rule:
  assumes "cellAt grid (fst s) (snd s) = Inr cell"
    and "cellAt grid (fst sPrime) (snd sPrime) = Inr nextCell"
  shows "\<exists>newGrid cell'. updateSARSA grid s a r sPrime aPrime alpha gamma rand = Inr newGrid
           \<and> cellAt newGrid (fst s) (snd s) = Inr cell'
           \<and> qValues cell' a =
                qValues cell a + alpha * (r + gamma *
                  (if type nextCell = TERMINAL then 0 else qValues nextCell aPrime)
                  - qValues cell a)
           \<and> (\<forall>b. b \<noteq> a \<longrightarrow> qValues cell' b = qValues cell b)
           \<and> utility cell' = Max (range (qValues cell'))
           \<and> (0 \<le> rand \<and> rand < 1 \<longrightarrow>
                (\<exists>b. policy cell' = Some b \<and> qValues cell' b = Max (range (qValues cell'))))
           \<and> (\<forall>aPrime2. \<exists>g2 c2.
                  updateSARSA grid s a r sPrime aPrime2 alpha gamma rand = Inr g2
                  \<and> cellAt g2 (fst s) (snd s) = Inr c2
                  \<and> (type nextCell \<noteq> TERMINAL \<longrightarrow>
                        qValues cell' a - qValues c2 a =
                          alpha * gamma * (qValues nextCell aPrime - qValues nextCell aPrime2))
                  \<and> (type nextCell \<noteq> TERMINAL \<and> 0 < alpha * gamma
                        \<and> qValues nextCell aPrime2 < qValues nextCell aPrime \<longrightarrow>
                        qValues c2 a < qValues cell' a))"
proof -
  define newQ where "newQ x = qValues cell a + alpha * (r + gamma *
                  (if type nextCell = TERMINAL then 0 else qValues nextCell x)
                  - qValues cell a)" for x
  have res: "\<exists>g'. updateSARSA grid s a r sPrime x alpha gamma rand = Inr g'
           \<and> cellAt g' (fst s) (snd s) = Inr (qUpdated cell a (newQ x) rand)" for x
    using updateSARSA_result [OF assms, of a r x alpha gamma rand] unfolding newQ_def by auto
  from res [of aPrime] obtain g' where g': "updateSARSA grid s a r sPrime aPrime alpha gamma rand = Inr g'"
      "cellAt g' (fst s) (snd s) = Inr (qUpdated cell a (newQ aPrime) rand)" by blast
  let ?c = "qUpdated cell a (newQ aPrime) rand"
  have q: "qValues ?c a = qValues cell a + alpha * (r + gamma *
                  (if type nextCell = TERMINAL then 0 else qValues nextCell aPrime)
                  - qValues cell a)"
      "\<forall>b. b \<noteq> a \<longrightarrow> qValues ?c b = qValues cell b"
    by (simp_all add: qUpdated_fields newQ_def)
  have u: "utility ?c = Max (range (qValues ?c))" by (rule qUpdated_fields)
  have p: "0 \<le> rand \<and> rand < 1 \<longrightarrow>
                (\<exists>b. policy ?c = Some b \<and> qValues ?c b = Max (range (qValues ?c)))"
    using qUpdated_policy by blast
  have dep: "\<forall>aPrime2. \<exists>g2 c2.
                  updateSARSA grid s a r sPrime aPrime2 alpha gamma rand = Inr g2
                  \<and> cellAt g2 (fst s) (snd s) = Inr c2
                  \<and> (type nextCell \<noteq> TERMINAL \<longrightarrow>
                        qValues ?c a - qValues c2 a =
                          alpha * gamma * (qValues nextCell aPrime - qValues nextCell aPrime2))
                  \<and> (type nextCell \<noteq> TERMINAL \<and> 0 < alpha * gamma
                        \<and> qValues nextCell aPrime2 < qValues nextCell aPrime \<longrightarrow>
                        qValues c2 a < qValues ?c a)"
  proof
    fix aPrime2
    from res [of aPrime2] obtain g2 where g2:
      "updateSARSA grid s a r sPrime aPrime2 alpha gamma rand = Inr g2"
      "cellAt g2 (fst s) (snd s) = Inr (qUpdated cell a (newQ aPrime2) rand)" by blast
    let ?c2 = "qUpdated cell a (newQ aPrime2) rand"
    have diff: "qValues ?c a - qValues ?c2 a =
                  alpha * gamma * (qValues nextCell aPrime - qValues nextCell aPrime2)"
      if "type nextCell \<noteq> TERMINAL"
      using that by (simp add: qUpdated_fields newQ_def algebra_simps)
    have less: "qValues ?c2 a < qValues ?c a"
      if t: "type nextCell \<noteq> TERMINAL" and pos: "0 < alpha * gamma"
        and lt: "qValues nextCell aPrime2 < qValues nextCell aPrime"
    proof -
      from lt have "0 < qValues nextCell aPrime - qValues nextCell aPrime2" by simp
      with pos have "0 < alpha * gamma * (qValues nextCell aPrime - qValues nextCell aPrime2)"
        by (rule mult_pos_pos)
      with diff [OF t] show ?thesis by simp
    qed
    from g2 diff less
    show "\<exists>g2 c2. updateSARSA grid s a r sPrime aPrime2 alpha gamma rand = Inr g2
                  \<and> cellAt g2 (fst s) (snd s) = Inr c2
                  \<and> (type nextCell \<noteq> TERMINAL \<longrightarrow>
                        qValues ?c a - qValues c2 a =
                          alpha * gamma * (qValues nextCell aPrime - qValues nextCell aPrime2))
                  \<and> (type nextCell \<noteq> TERMINAL \<and> 0 < alpha * gamma
                        \<and> qValues nextCell aPrime2 < qValues nextCell aPrime \<longrightarrow>
                        qValues c2 a < qValues ?c a)"
      by blast
  qed
  from g' q u p dep show ?thesis by blast
qed

theorem updateSARSA_rule_witness:
  "\<exists>g1 c1 g2 c2.
     updateSARSA qGrid (2, 0) UP (- 0.04) (1, 0) UP 0.1 0.9 0.3 = Inr g1
     \<and> cellAt g1 2 0 = Inr c1 \<and> qValues c1 UP = 0.041
     \<and> updateSARSA qGrid (2, 0) UP (- 0.04) (1, 0) DOWN 0.1 0.9 0.3 = Inr g2
     \<and> cellAt g2 2 0 = Inr c2 \<and> qValues c2 UP = 0.014 \<and> qValues c2 UP < qValues c1 UP"
proof -
  let ?nc = "(createCell (- 0.04) 1 0)\<lparr>qValues := (\<lambda>a. if a = UP then 0.5 else 0.2)\<rparr>"
  have s: "cellAt qGrid (fst (2, 0)) (snd (2, 0)) = Inr (createCell (- 0.04) 2 0)"
    and sp: "cellAt qGrid (fst (1, 0)) (snd (1, 0)) = Inr ?nc"
    by (simp_all add: qGrid_cells)
  have nt: "type ?nc \<noteq> TERMINAL" by (simp add: createCell_def)
  from updateSARSA_rule [OF s sp, of UP "- 0.04" UP "0.1" "0.9" "0.3"]
  obtain g1 c1 where
    g1: "updateSARSA qGrid (2, 0) UP (- 0.04) (1, 0) UP 0.1 0.9 0.3 = Inr g1"
    and c1: "cellAt g1 2 0 = Inr c1"
    and q1: "qValues c1 UP = qValues (createCell (- 0.04) 2 0) UP + 0.1 * (- 0.04 + 0.9 *
                  (if type ?nc = TERMINAL then 0 else qValues ?nc UP)
                  - qValues (createCell (- 0.04) 2 0) UP)"
    and dep: "\<forall>aPrime2. \<exists>g2 c2.
                  updateSARSA qGrid (2, 0) UP (- 0.04) (1, 0) aPrime2 0.1 0.9 0.3 = Inr g2
                  \<and> cellAt g2 (fst (2, 0)) (snd (2, 0)) = Inr c2
                  \<and> (type ?nc \<noteq> TERMINAL \<longrightarrow>
                        qValues c1 UP - qValues c2 UP =
                          0.1 * 0.9 * (qValues ?nc UP - qValues ?nc aPrime2))
                  \<and> (type ?nc \<noteq> TERMINAL \<and> (0::real) < 0.1 * 0.9
                        \<and> qValues ?nc aPrime2 < qValues ?nc UP \<longrightarrow>
                        qValues c2 UP < qValues c1 UP)"
    by auto
  have v1: "qValues c1 UP = 0.041" unfolding q1 by (simp add: createCell_def)
  from dep [rule_format, of DOWN] obtain g2 c2 where
    g2: "updateSARSA qGrid (2, 0) UP (- 0.04) (1, 0) DOWN 0.1 0.9 0.3 = Inr g2"
    and c2: "cellAt g2 2 0 = Inr c2"
    and d: "type ?nc \<noteq> TERMINAL \<longrightarrow>
                        qValues c1 UP - qValues c2 UP =
                          0.1 * 0.9 * (qValues ?nc UP - qValues ?nc DOWN)"
    and l: "type ?nc \<noteq> TERMINAL \<and> (0::real) < 0.1 * 0.9
                        \<and> qValues ?nc DOWN < qValues ?nc UP \<longrightarrow>
                        qValues c2 UP < qValues c1 UP"
    by auto
  have v2: "qValues c2 UP = 0.014" using d nt v1 by simp
  have lt: "qValues c2 UP < qValues c1 UP" using l nt by simp
  from g1 c1 v1 g2 c2 v2 lt show ?thesis by blast
qed

lemma qUpdated_frame:
  "qUpdated cell a newQ rand =
     cell\<lparr>qValues := (qValues cell)(a := qValues (qUpdated cell a newQ rand) a),
          utility := utility (qUpdated cell a newQ rand),
          policy := policy (qUpdated cell a newQ rand)\<rparr>"
  by (simp add: qUpdated_def)

lemma frame_from_cellAt:
  assumes src: "cellAt grid (fst s) (snd s) = Inr cell"
    and len: "map length g = map length grid"
    and at: "\<And>r c. cellAt g r c = (if r = fst s \<and> c = snd s then Inr cell' else cellAt grid r c)"
  shows "map length g = map length grid
         \<and> (\<forall>r c. (r, c) \<noteq> s \<longrightarrow> cellAt g r c = cellAt grid r c)
         \<and> cellAt g (fst s) (snd s) = Inr cell'
         \<and> (type cell \<noteq> TERMINAL \<and> type cell \<noteq> WALL \<longrightarrow>
              (\<forall>r c cl. cellAt grid r c = Inr cl \<and> (type cl = TERMINAL \<or> type cl = WALL) \<longrightarrow>
                 cellAt g r c = Inr cl))"
proof -
  have other: "cellAt g r c = cellAt grid r c" if "(r, c) \<noteq> s" for r c
    using that at [of r c] by (cases s) auto
  have here: "cellAt g (fst s) (snd s) = Inr cell'" using at by simp
  have tw: "cellAt g r c = Inr cl"
    if "type cell \<noteq> TERMINAL \<and> type cell \<noteq> WALL"
      and "cellAt grid r c = Inr cl \<and> (type cl = TERMINAL \<or> type cl = WALL)" for r c cl
  proof (cases "(r, c) = s")
    case True
    with that(2) src have "cl = cell" by auto
    with that show ?thesis by auto
  next
    case False
    with other that(2) show ?thesis by simp
  qed
  from len other here tw show ?thesis by blast
qed

text \<open>
  C8: when s and s' are positions of the grid, each of the three single-transition
  updates (\<^verbatim>\<open>updateQLearning\<close>, \<^verbatim>\<open>updateSARSA\<close>, the TD(0) branch of
  \<^verbatim>\<open>stepRL\<close>) returns a grid of the same shape in which every cell at a position
  other than s is the cell of the input grid. The cell at s keeps every field but
  qValues[a], utility and policy under the two Q rules, and every field but utility under
  TD(0); so position, type, reward and visitCount stay. When the cell at s is neither
  TERMINAL nor WALL, every TERMINAL and every WALL cell of the grid is unchanged.
\<close>

theorem learning_updates_frame:
  assumes "cellAt grid (fst s) (snd s) = Inr cell"
    and "cellAt grid (fst sPrime) (snd sPrime) = Inr nextCell"
  shows "(\<exists>g cell'. updateQLearning grid s a r sPrime alpha gamma rand = Inr g
            \<and> map length g = map length grid
            \<and> (\<forall>r c. (r, c) \<noteq> s \<longrightarrow> cellAt g r c = cellAt grid r c)
            \<and> cellAt g (fst s) (snd s) = Inr cell'
            \<and> (type cell \<noteq> TERMINAL \<and> type cell \<noteq> WALL \<longrightarrow>
                 (\<forall>r c cl. cellAt grid r c = Inr cl \<and> (type cl = TERMINAL \<or> type cl = WALL) \<longrightarrow>
                    cellAt g r c = Inr cl))
            \<and> cell' = cell\<lparr>qValues := (qValues cell)(a := qValues cell' a),
                             utility := utility cell', policy := policy cell'\<rparr>)
         \<and> (\<exists>g cell'. updateSARSA grid s a r sPrime aPrime alpha gamma rand = Inr g
            \<and> map length g = map length grid
            \<and> (\<forall>r c. (r, c) \<noteq> s \<longrightarrow> cellAt g r c = cellAt grid r c)
            \<and> cellAt g (fst s) (snd s) = Inr cell'
            \<and> (type cell \<noteq> TERMINAL \<and> type cell \<noteq> WALL \<longrightarrow>
                 (\<forall>r c cl. cellAt grid r c = Inr cl \<and> (type cl = TERMINAL \<or> type cl = WALL) \<longrightarrow>
                    cellAt g r c = Inr cl))
            \<and> cell' = cell\<lparr>qValues := (qValues cell)(a := qValues cell' a),
                             utility := utility cell', policy := policy cell'\<rparr>)
         \<and> (\<exists>g cell'. stepRL_TD grid s sPrime alpha gamma = Inr g
            \<and> map length g = map length grid
            \<and> (\<forall>r c. (r, c) \<noteq> s \<longrightarrow> cellAt g r c = cellAt grid r c)
            \<and> cellAt g (fst s) (snd s) = Inr cell'
            \<and> (type cell \<noteq> TERMINAL \<and> type cell \<noteq> WALL \<longrightarrow>
                 (\<forall>r c cl. cellAt grid r c = Inr cl \<and> (type cl = TERMINAL \<or> type cl = WALL) \<longrightarrow>
                    cellAt g r c = Inr cl))
            \<and> cell' = cell\<lparr>utility := utility cell'\<rparr>)"
proof -
  from updateQLearning_result [OF assms, of a r alpha gamma rand]
  obtain g1 nq1 where g1: "updateQLearning grid s a r sPrime alpha gamma rand = Inr g1"
      "map length g1 = map length grid"
      "\<And>r' c'. cellAt g1 r' c' =
          (if r' = fst s \<and> c' = snd s then Inr (qUpdated cell a nq1 rand) else cellAt grid r' c')"
    by blast
  note f1 = frame_from_cellAt [OF assms(1) g1(2), of "qUpdated cell a nq1 rand", OF g1(3)]
  have q: "\<exists>g cell'. updateQLearning grid s a r sPrime alpha gamma rand = Inr g
            \<and> map length g = map length grid
            \<and> (\<forall>r c. (r, c) \<noteq> s \<longrightarrow> cellAt g r c = cellAt grid r c)
            \<and> cellAt g (fst s) (snd s) = Inr cell'
            \<and> (type cell \<noteq> TERMINAL \<and> type cell \<noteq> WALL \<longrightarrow>
                 (\<forall>r c cl. cellAt grid r c = Inr cl \<and> (type cl = TERMINAL \<or> type cl = WALL) \<longrightarrow>
                    cellAt g r c = Inr cl))
            \<and> cell' = cell\<lparr>qValues := (qValues cell)(a := qValues cell' a),
                             utility := utility cell', policy := policy cell'\<rparr>"
    using g1(1) f1 qUpdated_frame [of cell a nq1 rand]
    by (intro exI [of _ g1] exI [of _ "qUpdated cell a nq1 rand"]) blast
  from updateSARSA_result [OF assms, of a r aPrime alpha gamma rand]
  obtain g2 nq2 where g2: "updateSARSA grid s a r sPrime aPrime alpha gamma rand = Inr g2"
      "map length g2 = map length grid"
      "\<And>r' c'. cellAt g2 r' c' =
          (if r' = fst s \<and> c' = snd s then Inr (qUpdated cell a nq2 rand) else cellAt grid r' c')"
    by blast
  note f2 = frame_from_cellAt [OF assms(1) g2(2), of "qUpdated cell a nq2 rand", OF g2(3)]
  have sa: "\<exists>g cell'. updateSARSA grid s a r sPrime aPrime alpha gamma rand = Inr g
            \<and> map length g = map length grid
            \<and> (\<forall>r c. (r, c) \<noteq> s \<longrightarrow> cellAt g r c = cellAt grid r c)
            \<and> cellAt g (fst s) (snd s) = Inr cell'
            \<and> (type cell \<noteq> TERMINAL \<and> type cell \<noteq> WALL \<longrightarrow>
                 (\<forall>r c cl. cellAt grid r c = Inr cl \<and> (type cl = TERMINAL \<or> type cl = WALL) \<longrightarrow>
                    cellAt g r c = Inr cl))
            \<and> cell' = cell\<lparr>qValues := (qValues cell)(a := qValues cell' a),
                             utility := utility cell', policy := policy cell'\<rparr>"
    using g2(1) f2 qUpdated_frame [of cell a nq2 rand]
    by (intro exI [of _ g2] exI [of _ "qUpdated cell a nq2 rand"]) blast
  from stepRL_TD_result [OF assms, of alpha gamma]
  obtain g3 nu where g3: "stepRL_TD grid s sPrime alpha gamma = Inr g3"
      "map length g3 = map length grid"
      "\<And>r' c'. cellAt g3 r' c' =
          (if r' = fst s \<and> c' = snd s then Inr (cell\<lparr>utility := nu\<rparr>) else cellAt grid r' c')"
    by blast
  note f3 = frame_from_cellAt [OF assms(1) g3(2), of "cell\<lparr>utility := nu\<rparr>", OF g3(3)]
  have td: "\<exists>g cell'. stepRL_TD grid s sPrime alpha gamma = Inr g
            \<and> map length g = map length grid
            \<and> (\<forall>r c. (r, c) \<noteq> s \<longrightarrow> cellAt g r c = cellAt grid r c)
            \<and> cellAt g (fst s) (snd s) = Inr cell'
            \<and> (type cell \<noteq> TERMINAL \<and> type cell \<noteq> WALL \<longrightarrow>
                 (\<forall>r c cl. cellAt grid r c = Inr cl \<and> (type cl = TERMINAL \<or> type cl = WALL) \<longrightarrow>
                    cellAt g r c = Inr cl))
            \<and> cell' = cell\<lparr>utility := utility cell'\<rparr>"
    using g3(1) f3
    by (intro exI [of _ g3] exI [of _ "cell\<lparr>utility := nu\<rparr>"]) simp
  from q sa td show ?thesis by (intro conjI)
qed

theorem learning_updates_frame_witness:
  "\<exists>g1 g2 g3 c1 c2 c3.
     updateQLearning qGrid (2, 0) UP (- 0.04) (1, 0) 0.1 0.9 0.3 = Inr g1
     \<and> cellAt g1 0 3 = Inr (createCell (- 0.04) 0 3)
     \<and> cellAt g1 1 1 = Inr (createCell (- 0.04) 1 1)
     \<and> cellAt g1 2 0 = Inr c1 \<and> type c1 = START \<and> reward c1 = - 0.04 \<and> qValues c1 DOWN = 0
     \<and> updateSARSA qGrid (2, 0) UP (- 0.04) (1, 0) DOWN 0.1 0.9 0.3 = Inr g2
     \<and> cellAt g2 0 3 = Inr (createCell (- 0.04) 0 3)
     \<and> cellAt g2 2 0 = Inr c2 \<and> type c2 = START \<and> visitCount c2 = 0
     \<and> stepRL_TD qGrid (2, 0) (1, 0) 0.1 0.9 = Inr g3
     \<and> cellAt g3 1 1 = Inr (createCell (- 0.04) 1 1)
     \<and> cellAt g3 2 0 = Inr c3 \<and> type c3 = START \<and> policy c3 = None \<and> qValues c3 UP = 0"
proof -
  let ?nc = "(createCell (- 0.04) 1 0)\<lparr>qValues := (\<lambda>a. if a = UP then 0.5 else 0.2)\<rparr>"
  let ?c = "createCell (- 0.04) 2 0"
  have s: "cellAt qGrid (fst (2, 0)) (snd (2, 0)) = Inr ?c"
    and sp: "cellAt qGrid (fst (1, 0)) (snd (1, 0)) = Inr ?nc"
    by (simp_all add: qGrid_cells)
  have ty: "type ?c \<noteq> TERMINAL \<and> type ?c \<noteq> WALL" by (simp add: createCell_def)
  have tw: "type (createCell (- 0.04) 0 3) = TERMINAL" "type (createCell (- 0.04) 1 1) = WALL"
    by (simp_all add: createCell_def)
  note fr = learning_updates_frame [OF s sp, of UP "- 0.04" "0.1" "0.9" "0.3" DOWN]
  from fr [THEN conjunct1] obtain g1 c1 where
    g1: "updateQLearning qGrid (2, 0) UP (- 0.04) (1, 0) 0.1 0.9 0.3 = Inr g1"
    and c1: "cellAt g1 2 0 = Inr c1"
    and k1: "type ?c \<noteq> TERMINAL \<and> type ?c \<noteq> WALL \<longrightarrow>
                 (\<forall>r c cl. cellAt qGrid r c = Inr cl \<and> (type cl = TERMINAL \<or> type cl = WALL) \<longrightarrow>
                    cellAt g1 r c = Inr cl)"
    and e1: "c1 = ?c\<lparr>qValues := (qValues ?c)(UP := qValues c1 UP),
                             utility := utility c1, policy := policy c1\<rparr>"
    by auto
  have a1: "cellAt g1 0 3 = Inr (createCell (- 0.04) 0 3)"
      "cellAt g1 1 1 = Inr (createCell (- 0.04) 1 1)"
    using k1 ty qGrid_cells(3,4) tw by blast+
  have b1: "type c1 = START" "reward c1 = - 0.04" "qValues c1 DOWN = 0"
    by (subst e1, simp add: createCell_def)+
  from fr [THEN conjunct2, THEN conjunct1] obtain g2 c2 where
    g2: "updateSARSA qGrid (2, 0) UP (- 0.04) (1, 0) DOWN 0.1 0.9 0.3 = Inr g2"
    and c2: "cellAt g2 2 0 = Inr c2"
    and k2: "type ?c \<noteq> TERMINAL \<and> type ?c \<noteq> WALL \<longrightarrow>
                 (\<forall>r c cl. cellAt qGrid r c = Inr cl \<and> (type cl = TERMINAL \<or> type cl = WALL) \<longrightarrow>
                    cellAt g2 r c = Inr cl)"
    and e2: "c2 = ?c\<lparr>qValues := (qValues ?c)(UP := qValues c2 UP),
                             utility := utility c2, policy := policy c2\<rparr>"
    by auto
  have a2: "cellAt g2 0 3 = Inr (createCell (- 0.04) 0 3)"
    using k2 ty qGrid_cells(3) tw by blast
  have b2: "type c2 = START" "visitCount c2 = 0"
    by (subst e2, simp add: createCell_def)+
  from fr [THEN conjunct2, THEN conjunct2] obtain g3 c3 where
    g3: "stepRL_TD qGrid (2, 0) (1, 0) 0.1 0.9 = Inr g3"
    and c3: "cellAt g3 2 0 = Inr c3"
    and k3: "type ?c \<noteq> TERMINAL \<and> type ?c \<noteq> WALL \<longrightarrow>
                 (\<forall>r c cl. cellAt qGrid r c = Inr cl \<and> (type cl = TERMINAL \<or> type cl = WALL) \<longrightarrow>
                    cellAt g3 r c = Inr cl)"
    and e3: "c3 = ?c\<lparr>utility := utility c3\<rparr>"
    by auto
  have a3: "cellAt g3 1 1 = Inr (createCell (- 0.04) 1 1)"
    using k3 ty qGrid_cells(4) tw by blast
  have b3: "type c3 = START" "policy c3 = None" "qValues c3 UP = 0"
    by (subst e3, simp add: createCell_def)+
  from g1 a1 c1 b1 g2 a2 c2 b2 g3 a3 c3 b3 show ?thesis by blast
qed

end
